theory Spec2Isabelle
  imports Main "HOL-Library.Word"
begin

unbundle bit_operations_syntax

section \<open>Common types\<close>

type_synonym byte = "8 word"
type_synonym data_chunk = "byte list"

text \<open>
  The library's error codes (\<^verbatim>\<open>error::success\<close>, \<^verbatim>\<open>error::operation_failed\<close>, ...).
  A \<^verbatim>\<open>code\<close> converts to \<^verbatim>\<open>true\<close> exactly when it is not \<^verbatim>\<open>success\<close>; transport
  codes mapped from the socket layer are \<open>transport n\<close>.
\<close>

datatype code =
    success
  | operation_failed
  | service_stopped
  | channel_stopped
  | bad_stream
  | address_in_use
  | file_system
  | transport nat

text \<open>A \<^verbatim>\<open>boost_code\<close> is an integer error value; zero converts to \<^verbatim>\<open>false\<close>.\<close>

type_synonym boost_code = int

section \<open>The proxy (src/unnamed/part\_001)\<close>

text \<open>
  The 24-byte wire heading, with the fields the proxy reads: \<^verbatim>\<open>head.magic\<close>,
  \<^verbatim>\<open>head.command\<close>, \<^verbatim>\<open>head.payload_size\<close> and \<^verbatim>\<open>head.checksum\<close>.
\<close>

record heading =
  magic :: "32 word"
  command :: data_chunk
  payload_size :: "32 word"
  checksum :: "32 word"

text \<open>
  A callback handed to the proxy may call back into the same proxy before it returns.
  The calls a callback can make are those of the proxy's public interface that do not
  take a further callback of their own for completion: \<^verbatim>\<open>subscribe_stop\<close>,
  \<^verbatim>\<open>subscribe\<close> and \<^verbatim>\<open>stop\<close>. Handlers are identified by a number.
\<close>

datatype call =
    subscribe_stop_call nat
  | subscribe_call nat
  | stop_call code

record result_handler =
  handler_id :: nat
  reaction :: "code \<Rightarrow> call list"

text \<open>
  What the proxy does to its collaborators (socket, the two subscribers, handlers, the
  virtual hooks of the derived channel) is recorded, in order, in a trace. Logging is
  not recorded.
\<close>

datatype event =
    invoke nat code
  | stop_subscriber_start
  | message_subscriber_start
  | message_subscriber_stop
  | message_subscriber_broadcast code
  | message_subscriber_subscribe nat
  | message_subscriber_load heading data_chunk
  | stop_subscriber_stop
  | stop_subscriber_relay code
  | stop_subscriber_subscribe nat code
  | handle_stopping
  | handle_activity
  | socket_shutdown
  | socket_cancel
  | async_read_heading
  | async_read_payload nat heading
  | async_write data_chunk nat

text \<open>
  The members of the class: \<open>m_stopped\<close> is \<^verbatim>\<open>stopped_\<close>, \<open>m_magic\<close> is
  \<^verbatim>\<open>magic_\<close>, and so on; \<open>m_trace\<close> is the trace.
\<close>

record proxy =
  m_stopped :: bool
  m_magic :: "32 word"
  m_heading_buffer :: data_chunk
  m_payload_buffer :: data_chunk
  m_trace :: "event list"

text \<open>
  Functions the proxy calls whose bodies are in other files: the conversion of a boost
  code, the heading parser (\<open>None\<close> when \<^verbatim>\<open>from_data\<close> returns false), the payload
  checksum, and \<^verbatim>\<open>message_subscriber_.load\<close>. The latter returns the parse error and
  whether bytes remain unconsumed; the third component lists the calls made on this
  proxy while the load was running (by a subscriber or by another thread).
\<close>

record environment =
  boost_to_error_code :: "boost_code \<Rightarrow> code"
  from_data :: "data_chunk \<Rightarrow> heading option"
  bitcoin_checksum :: "data_chunk \<Rightarrow> 32 word"
  load :: "heading \<Rightarrow> data_chunk \<Rightarrow> code \<times> bool \<times> call list"

definition max_payload_size :: nat where
  "max_payload_size = 10 * 1024 * 1024"

definition emit :: "event list \<Rightarrow> proxy \<Rightarrow> proxy" where
  "emit es p = p\<lparr>m_trace := m_trace p @ es\<rparr>"

text \<open>
  \<^verbatim>\<open>proxy::proxy\<close>: a proxy is constructed stopped. The heading buffer holds the 24
  bytes of a heading.
\<close>

definition proxy_new :: "32 word \<Rightarrow> proxy" where
  "proxy_new m =
     \<lparr>m_stopped = True, m_magic = m, m_heading_buffer = replicate 24 0,
      m_payload_buffer = [], m_trace = []\<rparr>"

text \<open>\<^verbatim>\<open>proxy::close\<close>: shutdown both directions, then cancel; socket errors are ignored.\<close>

definition proxy_close :: "proxy \<Rightarrow> proxy" where
  "proxy_close p = emit [socket_shutdown, socket_cancel] p"

text \<open>
  \<^verbatim>\<open>proxy::stop(const code&)\<close>. It begins with \<^verbatim>\<open>BITCOIN_ASSERT_MSG(ec, ...)\<close>: a
  call with the success code breaks the assertion, and the result is \<open>None\<close>. Every
  result proved below is a \<open>Some\<close>, so it holds with and without the assertion
  compiled in.
\<close>

definition proxy_stop :: "code \<Rightarrow> proxy \<Rightarrow> proxy option" where
  "proxy_stop ec p =
     (if ec = success then None
      else if m_stopped p then Some p
      else Some (proxy_close (emit
        [message_subscriber_stop, message_subscriber_broadcast channel_stopped,
         stop_subscriber_stop, stop_subscriber_relay ec, handle_stopping]
        (p\<lparr>m_stopped := True\<rparr>))))"

text \<open>\<^verbatim>\<open>proxy::stop(const boost_code&)\<close>.\<close>

definition proxy_stop_boost :: "environment \<Rightarrow> boost_code \<Rightarrow> proxy \<Rightarrow> proxy option" where
  "proxy_stop_boost env ec p = proxy_stop (boost_to_error_code env ec) p"

text \<open>\<^verbatim>\<open>proxy::subscribe_stop\<close>.\<close>

definition subscribe_stop :: "nat \<Rightarrow> proxy \<Rightarrow> proxy" where
  "subscribe_stop h p = emit [stop_subscriber_subscribe h channel_stopped] p"

text \<open>
  Modelled from the spec: \<^verbatim>\<open>proxy::subscribe\<close> is a template of the header, which is
  not among the source files; the spec has it register the callback with the message
  subscriber.
\<close>

definition subscribe :: "nat \<Rightarrow> proxy \<Rightarrow> proxy" where
  "subscribe h p = emit [message_subscriber_subscribe h] p"

fun run_call :: "call \<Rightarrow> proxy \<Rightarrow> proxy option" where
  "run_call (subscribe_stop_call h) p = Some (subscribe_stop h p)"
| "run_call (subscribe_call h) p = Some (subscribe h p)"
| "run_call (stop_call ec) p = proxy_stop ec p"

fun run_calls :: "call list \<Rightarrow> proxy \<Rightarrow> proxy option" where
  "run_calls [] p = Some p"
| "run_calls (c # cs) p = (case run_call c p of None \<Rightarrow> None | Some q \<Rightarrow> run_calls cs q)"

text \<open>Calling a handler: the call is recorded, then the handler's own calls run.\<close>

definition invoke_handler :: "result_handler \<Rightarrow> code \<Rightarrow> proxy \<Rightarrow> proxy option" where
  "invoke_handler h ec p = run_calls (reaction h ec) (emit [invoke (handler_id h) ec] p)"

text \<open>\<^verbatim>\<open>proxy::read_heading\<close>.\<close>

definition read_heading :: "proxy \<Rightarrow> proxy" where
  "read_heading p = (if m_stopped p then p else emit [async_read_heading] p)"

text \<open>\<^verbatim>\<open>proxy::start\<close>.\<close>

definition proxy_start :: "result_handler \<Rightarrow> proxy \<Rightarrow> proxy option" where
  "proxy_start handler p =
     (if \<not> m_stopped p then invoke_handler handler operation_failed p
      else
        (case invoke_handler handler success
                (emit [stop_subscriber_start, message_subscriber_start]
                   (p\<lparr>m_stopped := False\<rparr>)) of
           None \<Rightarrow> None
         | Some q \<Rightarrow> Some (read_heading q)))"

text \<open>\<^verbatim>\<open>std::vector::resize\<close>: cut to \<open>n\<close> elements, or fill up with zero bytes.\<close>

definition resize :: "data_chunk \<Rightarrow> nat \<Rightarrow> data_chunk" where
  "resize buf n = take n buf @ replicate (n - length buf) 0"

text \<open>\<^verbatim>\<open>proxy::read_payload\<close>.\<close>

definition read_payload :: "heading \<Rightarrow> proxy \<Rightarrow> proxy" where
  "read_payload head p =
     (if m_stopped p then p
      else emit [async_read_payload (unat (payload_size head)) head]
             (p\<lparr>m_payload_buffer := resize (m_payload_buffer p) (unat (payload_size head))\<rparr>))"

text \<open>
  \<^verbatim>\<open>proxy::handle_read_heading\<close>, the completion handler of the heading read. The
  socket has filled \<open>m_heading_buffer\<close> before it runs.
\<close>

definition handle_read_heading :: "environment \<Rightarrow> boost_code \<Rightarrow> proxy \<Rightarrow> proxy option" where
  "handle_read_heading env ec p =
     (if m_stopped p then Some p
      else if ec \<noteq> 0 then proxy_stop_boost env ec p
      else
        (case from_data env (m_heading_buffer p) of
           None \<Rightarrow> proxy_stop bad_stream p
         | Some head \<Rightarrow>
             if magic head \<noteq> m_magic p then proxy_stop bad_stream p
             else if unat (payload_size head) > max_payload_size then proxy_stop bad_stream p
             else Some (emit [handle_activity] (read_payload head p))))"

text \<open>
  \<^verbatim>\<open>proxy::handle_read_payload\<close>, the completion handler of the payload read. The
  socket has filled \<open>m_payload_buffer\<close> before it runs.
\<close>

definition handle_read_payload ::
  "environment \<Rightarrow> boost_code \<Rightarrow> heading \<Rightarrow> proxy \<Rightarrow> proxy option" where
  "handle_read_payload env ec head p =
     (if m_stopped p then Some p
      else if checksum head \<noteq> bitcoin_checksum env (m_payload_buffer p)
        then proxy_stop bad_stream p
      else
        (case load env head (m_payload_buffer p) of (parse_error, unconsumed, meanwhile) \<Rightarrow>
          (case run_calls meanwhile
                  (emit [message_subscriber_load head (m_payload_buffer p)] p) of
             None \<Rightarrow> None
           | Some p1 \<Rightarrow>
               if m_stopped p1 then Some p1
               else if ec \<noteq> 0 then proxy_stop_boost env ec p1
               else
                 (case (if parse_error \<noteq> success then proxy_stop parse_error p1
                        else Some p1) of
                    None \<Rightarrow> None
                  | Some p2 \<Rightarrow> Some (read_heading (emit [handle_activity] p2))))))"

text \<open>\<^verbatim>\<open>proxy::do_send\<close>.\<close>

definition do_send :: "data_chunk \<Rightarrow> result_handler \<Rightarrow> string \<Rightarrow> proxy \<Rightarrow> proxy option" where
  "do_send message handler cmd p =
     (if m_stopped p then invoke_handler handler channel_stopped p
      else Some (emit [async_write message (handler_id handler)] p))"

text \<open>\<^verbatim>\<open>proxy::handle_send\<close>, the completion handler of the write.\<close>

definition handle_send :: "environment \<Rightarrow> boost_code \<Rightarrow> result_handler \<Rightarrow> proxy \<Rightarrow> proxy option" where
  "handle_send env ec handler p = invoke_handler handler (boost_to_error_code env ec) p"

text \<open>The events by which the proxy stops itself with code \<open>ec\<close>.\<close>

definition stop_events :: "code \<Rightarrow> event list" where
  "stop_events ec =
     [message_subscriber_stop, message_subscriber_broadcast channel_stopped,
      stop_subscriber_stop, stop_subscriber_relay ec, handle_stopping,
      socket_shutdown, socket_cancel]"

fun is_socket_read :: "event \<Rightarrow> bool" where
  "is_socket_read async_read_heading = True"
| "is_socket_read (async_read_payload n head) = True"
| "is_socket_read e = False"

fun is_socket_write :: "event \<Rightarrow> bool" where
  "is_socket_write (async_write m h) = True"
| "is_socket_write e = False"

fun is_delivery :: "event \<Rightarrow> bool" where
  "is_delivery (message_subscriber_load head payload) = True"
| "is_delivery e = False"

subsection \<open>Runs of a proxy\<close>

text \<open>
  What can happen to a proxy: a call of its interface, or the completion of a socket
  operation. A read completion comes with the bytes the socket has put into the buffer.
\<close>

datatype proxy_op =
    start_op result_handler
  | stop_op code
  | stop_boost_op boost_code
  | subscribe_stop_op nat
  | subscribe_op nat
  | send_op data_chunk result_handler string
  | send_done_op boost_code result_handler
  | heading_read_op boost_code data_chunk
  | payload_read_op boost_code data_chunk heading

text \<open>The socket overwrites the front of a buffer and leaves its size as it is.\<close>

definition fill :: "data_chunk \<Rightarrow> data_chunk \<Rightarrow> data_chunk" where
  "fill buf bytes = take (length buf) bytes @ drop (length bytes) buf"

fun apply_op :: "environment \<Rightarrow> proxy_op \<Rightarrow> proxy \<Rightarrow> proxy option" where
  "apply_op env (start_op h) p = proxy_start h p"
| "apply_op env (stop_op ec) p = proxy_stop ec p"
| "apply_op env (stop_boost_op ec) p = proxy_stop_boost env ec p"
| "apply_op env (subscribe_stop_op h) p = Some (subscribe_stop h p)"
| "apply_op env (subscribe_op h) p = Some (subscribe h p)"
| "apply_op env (send_op message h cmd) p = do_send message h cmd p"
| "apply_op env (send_done_op ec h) p = handle_send env ec h p"
| "apply_op env (heading_read_op ec bytes) p =
     handle_read_heading env ec (p\<lparr>m_heading_buffer := fill (m_heading_buffer p) bytes\<rparr>)"
| "apply_op env (payload_read_op ec bytes head) p =
     handle_read_payload env ec head
       (p\<lparr>m_payload_buffer := fill (m_payload_buffer p) bytes\<rparr>)"

fun run_ops :: "environment \<Rightarrow> proxy_op list \<Rightarrow> proxy \<Rightarrow> proxy option" where
  "run_ops env [] p = Some p"
| "run_ops env (x # xs) p =
     (case apply_op env x p of None \<Rightarrow> None | Some q \<Rightarrow> run_ops env xs q)"

fun is_start :: "proxy_op \<Rightarrow> bool" where
  "is_start (start_op h) = True"
| "is_start x = False"

text \<open>The events a state has beyond those of an earlier state.\<close>

definition new_events :: "proxy \<Rightarrow> proxy \<Rightarrow> event list" where
  "new_events p q = drop (length (m_trace p)) (m_trace q)"

text \<open>
  \<open>quiet p q\<close>: the trace of \<open>q\<close> continues that of \<open>p\<close>, with no socket read, no
  socket write and no delivery of a message among the new events.
\<close>

definition is_io :: "event \<Rightarrow> bool" where
  "is_io e = (is_socket_read e \<or> is_socket_write e \<or> is_delivery e)"

definition quiet :: "proxy \<Rightarrow> proxy \<Rightarrow> bool" where
  "quiet p q =
     (take (length (m_trace p)) (m_trace q) = m_trace p \<and> \<not> list_ex is_io (new_events p q))"

text \<open>\<open>no_read p q\<close>: the trace of \<open>q\<close> continues that of \<open>p\<close> with no socket read.\<close>

definition no_read :: "proxy \<Rightarrow> proxy \<Rightarrow> bool" where
  "no_read p q =
     (take (length (m_trace p)) (m_trace q) = m_trace p
      \<and> \<not> list_ex is_socket_read (new_events p q))"

fun is_stop_call :: "call \<Rightarrow> bool" where
  "is_stop_call (stop_call ec) = True"
| "is_stop_call c = False"


subsection \<open>Examples\<close>

definition quiet_handler :: "nat \<Rightarrow> result_handler" where
  "quiet_handler n = \<lparr>handler_id = n, reaction = (\<lambda>ec. [])\<rparr>"

definition subscribing_handler :: "nat \<Rightarrow> result_handler" where
  "subscribing_handler n =
     \<lparr>handler_id = n, reaction = (\<lambda>ec. if ec = success then [subscribe_call 7] else [])\<rparr>"

definition example_heading :: "32 word \<Rightarrow> heading" where
  "example_heading n = \<lparr>magic = 0xD9B4BEF9, command = [], payload_size = n, checksum = 5\<rparr>"

definition example_environment :: "heading option \<Rightarrow> code \<Rightarrow> environment" where
  "example_environment parsed parse_error =
     \<lparr>boost_to_error_code = (\<lambda>ec. if ec = 0 then success else transport (nat \<bar>ec\<bar>)),
      from_data = (\<lambda>bytes. parsed),
      bitcoin_checksum = (\<lambda>bytes. 5),
      load = (\<lambda>head bytes. (parse_error, False, []))\<rparr>"

definition running_proxy :: proxy where
  "running_proxy = (proxy_new 0xD9B4BEF9)\<lparr>m_stopped := False\<rparr>"

section \<open>The session manager (src/src/p2p.cpp)\<close>

datatype session = session_manual | session_seed | session_inbound | session_outbound

text \<open>
  The effects of the manager on its collaborators (subscriber, thread pool, sessions,
  host store, connections set, handlers), in order. A handler is identified by a number.
\<close>

datatype p2p_event =
    p2p_invoke nat code
  | subscriber_start
  | subscriber_stop
  | subscriber_relay code
  | threadpool_join
  | threadpool_spawn nat
  | threadpool_shutdown
  | attach session
  | session_start session
  | hosts_load
  | hosts_save
  | connections_stop code

text \<open>
  \<open>n_stopped\<close> is \<^verbatim>\<open>stopped_\<close>; \<open>n_manual\<close> tells whether \<^verbatim>\<open>manual_\<close> holds a
  session (or \<^verbatim>\<open>nullptr\<close>); \<open>n_trace\<close> is the trace.
\<close>

record p2p =
  n_stopped :: bool
  n_manual :: bool
  n_trace :: "p2p_event list"

text \<open>
  What the manager's collaborators answer: the configured thread count, the results of
  \<^verbatim>\<open>hosts_.load()\<close> and \<^verbatim>\<open>hosts_.save()\<close>, and how the two sessions of the start
  sequence complete their \<^verbatim>\<open>start(handler)\<close>: \<open>Some ec\<close> when the session calls the
  handler with \<open>ec\<close> before \<^verbatim>\<open>start\<close> returns, \<open>None\<close> when it keeps the handler and
  calls it later.
\<close>

record p2p_environment =
  threads :: nat
  hosts_load_result :: code
  hosts_save_result :: code
  manual_start :: "code option"
  seed_start :: "code option"

definition p2p_emit :: "p2p_event list \<Rightarrow> p2p \<Rightarrow> p2p" where
  "p2p_emit es m = m\<lparr>n_trace := n_trace m @ es\<rparr>"

text \<open>\<^verbatim>\<open>p2p::p2p\<close>: a manager is constructed stopped.\<close>

definition p2p_new :: p2p where
  "p2p_new = \<lparr>n_stopped = True, n_manual = False, n_trace = []\<rparr>"

text \<open>\<^verbatim>\<open>p2p::handle_hosts_seeded\<close>.\<close>

definition handle_hosts_seeded :: "code \<Rightarrow> nat \<Rightarrow> p2p \<Rightarrow> p2p" where
  "handle_hosts_seeded ec handler m =
     (if n_stopped m then p2p_emit [p2p_invoke handler service_stopped] m
      else if ec \<noteq> success then p2p_emit [p2p_invoke handler ec] m
      else p2p_emit [p2p_invoke handler success] m)"

text \<open>\<^verbatim>\<open>p2p::handle_hosts_loaded\<close>.\<close>

definition handle_hosts_loaded :: "p2p_environment \<Rightarrow> code \<Rightarrow> nat \<Rightarrow> p2p \<Rightarrow> p2p" where
  "handle_hosts_loaded env ec handler m =
     (if n_stopped m then p2p_emit [p2p_invoke handler service_stopped] m
      else if ec \<noteq> success then p2p_emit [p2p_invoke handler ec] m
      else
        (let m1 = p2p_emit [attach session_seed, session_start session_seed] m
         in case seed_start env of
              None \<Rightarrow> m1
            | Some ec1 \<Rightarrow> handle_hosts_seeded ec1 handler m1))"

text \<open>\<^verbatim>\<open>p2p::handle_manual_started\<close>.\<close>

definition handle_manual_started :: "p2p_environment \<Rightarrow> code \<Rightarrow> nat \<Rightarrow> p2p \<Rightarrow> p2p" where
  "handle_manual_started env ec handler m =
     (if n_stopped m then p2p_emit [p2p_invoke handler service_stopped] m
      else if ec \<noteq> success then p2p_emit [p2p_invoke handler ec] m
      else handle_hosts_loaded env (hosts_load_result env) handler (p2p_emit [hosts_load] m))"

text \<open>\<^verbatim>\<open>p2p::start\<close>.\<close>

definition p2p_start :: "p2p_environment \<Rightarrow> nat \<Rightarrow> p2p \<Rightarrow> p2p" where
  "p2p_start env handler m =
     (if \<not> n_stopped m then p2p_emit [p2p_invoke handler operation_failed] m
      else
        (let m1 = p2p_emit
                    [subscriber_start, threadpool_join, threadpool_spawn (threads env),
                     attach session_manual, session_start session_manual]
                    (m\<lparr>n_stopped := False\<rparr>);
             m2 = (case manual_start env of
                     None \<Rightarrow> m1
                   | Some ec \<Rightarrow> handle_manual_started env ec handler m1)
         in m2\<lparr>n_manual := True\<rparr>))"

text \<open>What \<^verbatim>\<open>start\<close> does before the manual session calls back.\<close>

definition start_events :: "p2p_environment \<Rightarrow> p2p_event list" where
  "start_events env =
     [subscriber_start, threadpool_join, threadpool_spawn (threads env),
      attach session_manual, session_start session_manual]"

text \<open>\<^verbatim>\<open>p2p::stop\<close>.\<close>

definition p2p_stop :: "p2p_environment \<Rightarrow> nat \<Rightarrow> p2p \<Rightarrow> p2p" where
  "p2p_stop env handler m =
     (let m1 = (p2p_emit
                  [subscriber_stop, subscriber_relay service_stopped,
                   connections_stop service_stopped] m)\<lparr>n_manual := False\<rparr>;
          ec = (if n_stopped m1 then success else hosts_save_result env);
          m2 = (if n_stopped m1 then m1 else p2p_emit [hosts_save] m1);
          m3 = m2\<lparr>n_stopped := True\<rparr>
      in p2p_emit [threadpool_shutdown, p2p_invoke handler ec] m3)"

text \<open>Consecutive \<^verbatim>\<open>stop\<close> calls, each with its own handler and host-save result.\<close>

fun p2p_stops :: "(p2p_environment \<times> nat) list \<Rightarrow> p2p \<Rightarrow> p2p" where
  "p2p_stops [] m = m"
| "p2p_stops ((env, handler) # rest) m = p2p_stops rest (p2p_stop env handler m)"

text \<open>What a \<^verbatim>\<open>stop\<close> call with handler \<open>h\<close> adds to the trace of a stopped manager.\<close>

definition stopped_stop_events :: "nat \<Rightarrow> p2p_event list" where
  "stopped_stop_events h =
     [subscriber_stop, subscriber_relay service_stopped, connections_stop service_stopped,
      threadpool_shutdown, p2p_invoke h success]"

subsection \<open>Examples\<close>

definition example_settings :: "code option \<Rightarrow> code \<Rightarrow> code option \<Rightarrow> code \<Rightarrow> p2p_environment" where
  "example_settings manual loaded seeded saved =
     \<lparr>threads = 4, hosts_load_result = loaded, hosts_save_result = saved,
      manual_start = manual, seed_start = seeded\<rparr>"

definition running_p2p :: p2p where
  "running_p2p = p2p_new\<lparr>n_stopped := False, n_manual := True\<rparr>"

section \<open>Scripts (src/unnamed/part\_000)\<close>

text \<open>\<^verbatim>\<open>enum class opcode\<close>.\<close>

datatype opcode =
    raw_data
  | special
  | pushdata1
  | pushdata2
  | pushdata4
  | op_1 | op_2 | op_3 | op_4 | op_5 | op_6 | op_7 | op_8
  | op_9 | op_10 | op_11 | op_12 | op_13 | op_14 | op_15 | op_16
  | nop
  | drop_op
  | dup
  | sha256
  | hash160
  | equal_op
  | equalverify
  | checksig
  | codeseparator
  | bad_operation

text \<open>The enumerators' values; \<^verbatim>\<open>codeseparator\<close> and \<^verbatim>\<open>bad_operation\<close> follow 172.\<close>

fun opcode_value :: "opcode \<Rightarrow> nat" where
  "opcode_value raw_data = 0"
| "opcode_value special = 1"
| "opcode_value pushdata1 = 76"
| "opcode_value pushdata2 = 77"
| "opcode_value pushdata4 = 78"
| "opcode_value op_1 = 81"
| "opcode_value op_2 = 82"
| "opcode_value op_3 = 83"
| "opcode_value op_4 = 84"
| "opcode_value op_5 = 85"
| "opcode_value op_6 = 86"
| "opcode_value op_7 = 87"
| "opcode_value op_8 = 88"
| "opcode_value op_9 = 89"
| "opcode_value op_10 = 90"
| "opcode_value op_11 = 91"
| "opcode_value op_12 = 92"
| "opcode_value op_13 = 93"
| "opcode_value op_14 = 94"
| "opcode_value op_15 = 95"
| "opcode_value op_16 = 96"
| "opcode_value nop = 97"
| "opcode_value drop_op = 117"
| "opcode_value dup = 118"
| "opcode_value sha256 = 168"
| "opcode_value hash160 = 169"
| "opcode_value equal_op = 135"
| "opcode_value equalverify = 136"
| "opcode_value checksig = 172"
| "opcode_value codeseparator = 173"
| "opcode_value bad_operation = 174"

text \<open>\<^verbatim>\<open>struct operation\<close> and the two members of \<^verbatim>\<open>class script\<close>.\<close>

record operation =
  code :: opcode
  data :: data_chunk

record script =
  m_operations :: "operation list"
  m_stack :: "data_chunk list"

text \<open>\<^verbatim>\<open>namespace sighash\<close>.\<close>

definition sighash_all :: "32 word" where "sighash_all = 1"
definition sighash_none :: "32 word" where "sighash_none = 2"
definition sighash_single :: "32 word" where "sighash_single = 3"
definition sighash_anyone_can_pay :: "32 word" where "sighash_anyone_can_pay = 0x80"

subsection \<open>Parsing and serialising\<close>

text \<open>
  Modelled from the spec: the opcode a byte above \<^verbatim>\<open>0x4E\<close> stands for. The bodies of
  \<^verbatim>\<open>parse_script\<close> and \<^verbatim>\<open>save_script\<close> are not among the source files; the spec maps
  such a byte directly to the enumeration, and an unknown byte to \<^verbatim>\<open>bad_operation\<close>.
\<close>

definition opcodes :: "opcode list" where
  "opcodes =
     [op_1, op_2, op_3, op_4, op_5, op_6, op_7, op_8, op_9, op_10, op_11, op_12,
      op_13, op_14, op_15, op_16, nop, drop_op, dup, sha256, hash160, equal_op,
      equalverify, checksig, codeseparator, bad_operation]"

definition byte_to_opcode :: "byte \<Rightarrow> opcode" where
  "byte_to_opcode b =
     (case find (\<lambda>c. opcode_value c = unat b) opcodes of
        Some c \<Rightarrow> c
      | None \<Rightarrow> bad_operation)"

text \<open>Little-endian numbers of \<open>k\<close> bytes.\<close>

fun to_little_endian :: "nat \<Rightarrow> nat \<Rightarrow> data_chunk" where
  "to_little_endian 0 v = []"
| "to_little_endian (Suc k) v = of_nat (v mod 256) # to_little_endian k (v div 256)"

fun from_little_endian :: "data_chunk \<Rightarrow> nat" where
  "from_little_endian [] = 0"
| "from_little_endian (b # bs) = unat b + 256 * from_little_endian bs"

text \<open>
  Modelled from the spec: a push of the next \<open>n\<close> bytes, tagged \<open>tag\<close>. The spec does
  not say what a script that ends inside a push parses to; here it does not parse.
\<close>

definition read_push :: "opcode \<Rightarrow> nat \<Rightarrow> data_chunk \<Rightarrow> (operation \<times> data_chunk) option" where
  "read_push tag n bytes =
     (if length bytes < n then None
      else Some (\<lparr>code = tag, data = take n bytes\<rparr>, drop n bytes))"

text \<open>
  Modelled from the spec: a push whose length is the little-endian number in the next
  \<open>k\<close> bytes.
\<close>

definition read_sized_push ::
  "opcode \<Rightarrow> nat \<Rightarrow> data_chunk \<Rightarrow> (operation \<times> data_chunk) option" where
  "read_sized_push tag k bytes =
     (if length bytes < k then None
      else read_push tag (from_little_endian (take k bytes)) (drop k bytes))"

text \<open>
  Modelled from the spec: the decoding of one operation at the head of the bytes
  (the byte-by-byte decoding of section 4.1, Parse), with the bytes that follow it.
\<close>

definition parse_operation :: "byte \<Rightarrow> data_chunk \<Rightarrow> (operation \<times> data_chunk) option" where
  "parse_operation b bytes =
     (if b = 0x00 then Some (\<lparr>code = raw_data, data = []\<rparr>, bytes)
      else if unat b \<le> 0x4B then read_push raw_data (unat b) bytes
      else if b = 0x4C then read_sized_push pushdata1 1 bytes
      else if b = 0x4D then read_sized_push pushdata2 2 bytes
      else if b = 0x4E then read_sized_push pushdata4 4 bytes
      else Some (\<lparr>code = byte_to_opcode b, data = []\<rparr>, bytes))"

text \<open>Modelled from the spec: the operation sequence of raw script bytes.\<close>

function parse_operations :: "data_chunk \<Rightarrow> operation list option" where
  "parse_operations [] = Some []"
| "parse_operations (b # bytes) =
     (case parse_operation b bytes of
        None \<Rightarrow> None
      | Some (oper, rest) \<Rightarrow>
          (case parse_operations rest of
             None \<Rightarrow> None
           | Some opers \<Rightarrow> Some (oper # opers)))"
  by pat_completeness auto
termination
  by (relation "measure length")
    (auto simp: parse_operation_def read_sized_push_def read_push_def split: if_splits)

text \<open>
  Modelled from the spec: \<^verbatim>\<open>parse_script\<close>. The script it returns has an empty
  evaluation stack.
\<close>

definition parse_script :: "data_chunk \<Rightarrow> script option" where
  "parse_script raw_script =
     (case parse_operations raw_script of
        None \<Rightarrow> None
      | Some opers \<Rightarrow> Some \<lparr>m_operations = opers, m_stack = []\<rparr>)"

fun is_push :: "opcode \<Rightarrow> bool" where
  "is_push raw_data = True"
| "is_push pushdata1 = True"
| "is_push pushdata2 = True"
| "is_push pushdata4 = True"
| "is_push c = False"

text \<open>
  Modelled from the spec: the smallest push encoding that fits a payload: the length
  byte alone up to 75 bytes, then \<^verbatim>\<open>0x4C\<close>, \<^verbatim>\<open>0x4D\<close> and \<^verbatim>\<open>0x4E\<close> with a length of
  one, two and four bytes.
\<close>

definition save_push :: "data_chunk \<Rightarrow> data_chunk" where
  "save_push payload =
     (let n = length payload in
      if n \<le> 0x4B then of_nat n # payload
      else if n \<le> 0xFF then 0x4C # to_little_endian 1 n @ payload
      else if n \<le> 0xFFFF then 0x4D # to_little_endian 2 n @ payload
      else 0x4E # to_little_endian 4 n @ payload)"

text \<open>
  Modelled from the spec: the bytes of one operation; an operation that is not a push
  is the byte of its enumerator.
\<close>

definition save_operation :: "operation \<Rightarrow> data_chunk" where
  "save_operation oper =
     (if is_push (code oper) then save_push (data oper)
      else [of_nat (opcode_value (code oper))])"

text \<open>Modelled from the spec: \<^verbatim>\<open>save_script\<close>, the inverse of parsing.\<close>

definition save_script :: "script \<Rightarrow> data_chunk" where
  "save_script scr = concat (map save_operation (m_operations scr))"

text \<open>
  The tag the parser gives a push of \<open>n\<close> bytes in the smallest encoding, if there is
  such an encoding.
\<close>

definition smallest_push :: "nat \<Rightarrow> opcode option" where
  "smallest_push n =
     (if n \<le> 0x4B then Some raw_data
      else if n \<le> 0xFF then Some pushdata1
      else if n \<le> 0xFFFF then Some pushdata2
      else if n < 2 ^ 32 then Some pushdata4
      else None)"

text \<open>
  A well-formed operation: a push carries the tag of the smallest encoding of its
  payload; any other operation is one the byte decoding can emit (so not the sentinel
  \<^verbatim>\<open>special\<close>) and has no payload.
\<close>

definition well_formed_operation :: "operation \<Rightarrow> bool" where
  "well_formed_operation oper =
     (if is_push (code oper) then smallest_push (length (data oper)) = Some (code oper)
      else code oper \<noteq> special \<and> data oper = [])"

text \<open>A well-formed script: well-formed operations, and nothing on the evaluation stack.\<close>

definition well_formed :: "script \<Rightarrow> bool" where
  "well_formed scr = (list_all well_formed_operation (m_operations scr) \<and> m_stack scr = [])"

subsection \<open>The signature hash\<close>

text \<open>
  Modelled from the spec: a transaction, of which the script header has only the forward
  declaration \<^verbatim>\<open>message::transaction\<close>: inputs with a script and a sequence number,
  outputs with a value and a script.
\<close>

record tx_input =
  previous_output :: data_chunk
  input_script :: script
  sequence :: "32 word"

record tx_output =
  output_value :: "64 word"
  output_script :: script

record transaction =
  version :: "32 word"
  locktime :: "32 word"
  inputs :: "tx_input list"
  outputs :: "tx_output list"

text \<open>Modelled from the spec: a cleared script has no operations.\<close>

definition empty_script :: script where
  "empty_script = \<lparr>m_operations = [], m_stack = []\<rparr>"

text \<open>Modelled from the spec: a script with all \<^verbatim>\<open>codeseparator\<close> operations removed.\<close>

definition without_codeseparators :: "script \<Rightarrow> script" where
  "without_codeseparators scr =
     scr\<lparr>m_operations := filter (\<lambda>oper. code oper \<noteq> codeseparator) (m_operations scr)\<rparr>"

text \<open>
  Modelled from the spec: step 1, every input script cleared and the script of input \<open>i\<close>
  set to \<open>S\<close> without its \<^verbatim>\<open>codeseparator\<close> operations. When there is no input \<open>i\<close>,
  all input scripts are cleared.
\<close>

definition set_input_scripts :: "nat \<Rightarrow> script \<Rightarrow> tx_input list \<Rightarrow> tx_input list" where
  "set_input_scripts i scr ins =
     map (\<lambda>(j, inp). inp\<lparr>input_script :=
                             (if j = i then without_codeseparators scr else empty_script)\<rparr>)
       (enumerate 0 ins)"

text \<open>Modelled from the spec: every input other than \<open>i\<close> gets sequence number 0.\<close>

definition zero_other_sequences :: "nat \<Rightarrow> tx_input list \<Rightarrow> tx_input list" where
  "zero_other_sequences i ins =
     map (\<lambda>(j, inp). if j = i then inp else inp\<lparr>sequence := 0\<rparr>) (enumerate 0 ins)"

text \<open>Modelled from the spec: a blanked output has value \<open>2\<^sup>6\<^sup>4 - 1\<close> and an empty script.\<close>

definition blank_output :: tx_output where
  "blank_output = \<lparr>output_value = - 1, output_script = empty_script\<rparr>"

text \<open>Modelled from the spec: outputs cut to \<open>i + 1\<close>, the first \<open>i\<close> of them blanked.\<close>

definition single_outputs :: "nat \<Rightarrow> tx_output list \<Rightarrow> tx_output list" where
  "single_outputs i outs = replicate i blank_output @ take 1 (drop i outs)"

text \<open>Modelled from the spec: the digest of the out-of-range \<^verbatim>\<open>single\<close> case, 32 bytes
  with the last byte set to 1.\<close>

definition one_hash :: data_chunk where
  "one_hash = replicate 31 0 @ [1]"

text \<open>
  Modelled from the spec: \<^verbatim>\<open>script::generate_signature_hash\<close> (section 4.1, Signature
  hash algorithm), whose body is not among the source files. The canonical serialiser
  of transactions and SHA-256 are the parameters \<open>serialize\<close> and \<open>sha256_hash\<close>.
\<close>

definition generate_signature_hash ::
  "(transaction \<Rightarrow> data_chunk) \<Rightarrow> (data_chunk \<Rightarrow> data_chunk) \<Rightarrow>
   transaction \<Rightarrow> 32 word \<Rightarrow> script \<Rightarrow> 32 word \<Rightarrow> data_chunk" where
  "generate_signature_hash serialize sha256_hash parent_tx input_index script_code hash_type =
     (let i = unat input_index;
          tx1 = parent_tx\<lparr>inputs := set_input_scripts i script_code (inputs parent_tx)\<rparr>;
          mode = hash_type AND 0x1F
      in
        if mode = sighash_single \<and> i \<ge> length (outputs tx1) then one_hash
        else
          (let tx2 =
                 (if mode = sighash_none then
                    tx1\<lparr>outputs := [], inputs := zero_other_sequences i (inputs tx1)\<rparr>
                  else if mode = sighash_single then
                    tx1\<lparr>outputs := single_outputs i (outputs tx1),
                        inputs := zero_other_sequences i (inputs tx1)\<rparr>
                  else tx1);
               tx3 =
                 (if hash_type AND sighash_anyone_can_pay \<noteq> 0 then
                    tx2\<lparr>inputs := take 1 (drop i (inputs tx2))\<rparr>
                  else tx2)
           in sha256_hash (sha256_hash
                (serialize tx3 @ to_little_endian 4 (unat hash_type)))))"

subsection \<open>Examples\<close>

text \<open>A pay-to-public-key-hash output script, and a transaction with one input and one
  output.\<close>

definition example_script :: script where
  "example_script =
     \<lparr>m_operations =
        [\<lparr>code = dup, data = []\<rparr>, \<lparr>code = hash160, data = []\<rparr>,
         \<lparr>code = raw_data, data = replicate 20 0xAB\<rparr>,
         \<lparr>code = equalverify, data = []\<rparr>, \<lparr>code = checksig, data = []\<rparr>],
      m_stack = []\<rparr>"

definition example_transaction :: transaction where
  "example_transaction =
     \<lparr>version = 1, locktime = 0,
      inputs = [\<lparr>previous_output = [], input_script = empty_script, sequence = - 1\<rparr>],
      outputs = [\<lparr>output_value = 5000, output_script = example_script\<rparr>]\<rparr>"

section \<open>Properties of the proxy\<close>

lemma proxy_stop_running:
  "ec \<noteq> success \<Longrightarrow> \<not> m_stopped p \<Longrightarrow>
   proxy_stop ec p = Some (p\<lparr>m_stopped := True, m_trace := m_trace p @ stop_events ec\<rparr>)"
  by (simp add: proxy_stop_def proxy_close_def emit_def stop_events_def)

lemma proxy_stop_stopped:
  "ec \<noteq> success \<Longrightarrow> m_stopped p \<Longrightarrow> proxy_stop ec p = Some p"
  by (simp add: proxy_stop_def)

lemma stop_events_quiet:
  "\<not> list_ex is_socket_read (stop_events ec)"
  "\<not> list_ex is_socket_write (stop_events ec)"
  "\<not> list_ex is_delivery (stop_events ec)"
  by (simp_all add: stop_events_def)

text \<open>
  C3. A running channel has read, without transport error, a heading that parses and
  bears the channel's magic. If its payload size is above \<open>max_payload_size\<close> (10 MiB),
  the channel stops with \<open>bad_stream\<close>: the only effects are those of the stop, none of
  which is a socket read, and the payload buffer is as before. If the payload size is
  \<open>max_payload_size\<close> exactly, the channel stays running, the payload buffer is resized
  to that size and the read of that many payload bytes is initiated.
\<close>

theorem payload_size_guard:
  assumes "\<not> m_stopped p"
    and "from_data env (m_heading_buffer p) = Some head"
    and "magic head = m_magic p"
  shows "(unat (payload_size head) > max_payload_size \<longrightarrow>
            handle_read_heading env 0 p =
              Some (p\<lparr>m_stopped := True, m_trace := m_trace p @ stop_events bad_stream\<rparr>)
            \<and> \<not> list_ex is_socket_read (stop_events bad_stream))
       \<and> (unat (payload_size head) = max_payload_size \<longrightarrow>
            handle_read_heading env 0 p =
              Some (p\<lparr>m_payload_buffer := resize (m_payload_buffer p) max_payload_size,
                      m_trace := m_trace p @
                        [async_read_payload max_payload_size head, handle_activity]\<rparr>))"
  using assms
  by (simp add: handle_read_heading_def proxy_stop_running stop_events_quiet
      read_payload_def emit_def)

theorem payload_size_guard_witness:
  "handle_read_heading (example_environment (Some (example_heading 10485761)) success) 0
     running_proxy =
     Some (running_proxy\<lparr>m_stopped := True, m_trace := stop_events bad_stream\<rparr>)
   \<and> handle_read_heading (example_environment (Some (example_heading 10485760)) success) 0
     running_proxy =
     Some (running_proxy\<lparr>m_payload_buffer := replicate 10485760 0,
             m_trace := [async_read_payload 10485760 (example_heading 10485760),
                         handle_activity]\<rparr>)"
  using payload_size_guard [of running_proxy
      "example_environment (Some (example_heading 10485761)) success" "example_heading 10485761"]
    payload_size_guard [of running_proxy
      "example_environment (Some (example_heading 10485760)) success" "example_heading 10485760"]
  by (simp add: running_proxy_def proxy_new_def example_environment_def example_heading_def
      max_payload_size_def resize_def)

text \<open>
  C6. A running channel has read a heading without transport error. If the heading does
  not parse, or parses with a magic other than the channel's, the channel stops with
  \<open>bad_stream\<close>: the only effects are those of the stop, none of which is a socket read,
  and the payload buffer is as before.
\<close>

theorem invalid_heading_stops:
  assumes "\<not> m_stopped p"
    and "from_data env (m_heading_buffer p) = None
         \<or> (\<exists>head. from_data env (m_heading_buffer p) = Some head \<and> magic head \<noteq> m_magic p)"
  shows "handle_read_heading env 0 p =
           Some (p\<lparr>m_stopped := True, m_trace := m_trace p @ stop_events bad_stream\<rparr>)
         \<and> \<not> list_ex is_socket_read (stop_events bad_stream)"
  using assms
  by (auto simp: handle_read_heading_def proxy_stop_running stop_events_quiet)

theorem invalid_heading_stops_witness:
  "handle_read_heading (example_environment None success) 0 running_proxy =
     Some (running_proxy\<lparr>m_stopped := True, m_trace := stop_events bad_stream\<rparr>)
   \<and> handle_read_heading (example_environment (Some (example_heading 3)) success) 0
       (running_proxy\<lparr>m_magic := 0x0709110B\<rparr>) =
     Some (running_proxy\<lparr>m_magic := 0x0709110B, m_stopped := True,
             m_trace := stop_events bad_stream\<rparr>)"
  using invalid_heading_stops [of running_proxy "example_environment None success"]
    invalid_heading_stops [of "running_proxy\<lparr>m_magic := 0x0709110B\<rparr>"
      "example_environment (Some (example_heading 3)) success"]
  by (simp add: running_proxy_def proxy_new_def example_environment_def example_heading_def)

lemma quiet_iff:
  "quiet p q \<longleftrightarrow> (\<exists>new. m_trace q = m_trace p @ new \<and> \<not> list_ex is_io new)"
proof
  assume "quiet p q"
  then have "m_trace q = m_trace p @ new_events p q" "\<not> list_ex is_io (new_events p q)"
    unfolding quiet_def new_events_def
    by (metis append_take_drop_id, simp)
  then show "\<exists>new. m_trace q = m_trace p @ new \<and> \<not> list_ex is_io new" by blast
next
  assume "\<exists>new. m_trace q = m_trace p @ new \<and> \<not> list_ex is_io new"
  then show "quiet p q" by (auto simp: quiet_def new_events_def)
qed

lemma quiet_refl: "quiet p p"
  by (simp add: quiet_def new_events_def)

lemma quiet_trans: "quiet p q \<Longrightarrow> quiet q r \<Longrightarrow> quiet p r"
  by (auto simp: quiet_iff list_ex_iff)

lemma quiet_emit: "\<not> list_ex is_io es \<Longrightarrow> quiet p (emit es p)"
  by (auto simp: quiet_iff emit_def)

lemma quiet_same_trace: "m_trace q = m_trace p \<Longrightarrow> quiet p q"
  by (simp add: quiet_iff)

lemma run_call_stopped:
  "m_stopped p \<Longrightarrow> run_call c p = Some q \<Longrightarrow> m_stopped q \<and> quiet p q"
  by (cases c)
    (auto simp: subscribe_stop_def subscribe_def proxy_stop_def emit_def quiet_iff is_io_def
      split: if_splits)

lemma run_calls_stopped:
  "m_stopped p \<Longrightarrow> run_calls cs p = Some q \<Longrightarrow> m_stopped q \<and> quiet p q"
proof (induction cs arbitrary: p)
  case Nil
  then show ?case by (simp add: quiet_refl)
next
  case (Cons c cs)
  then obtain p1 where 1: "run_call c p = Some p1" and 2: "run_calls cs p1 = Some q"
    by (auto split: option.splits)
  from run_call_stopped [OF Cons.prems(1) 1] have "m_stopped p1" "quiet p p1" by simp_all
  with Cons.IH [OF _ 2] show ?case by (blast intro: quiet_trans)
qed

lemma run_call_quiet:
  "run_call c p = Some q \<Longrightarrow> quiet p q"
  by (cases c)
    (auto simp: subscribe_stop_def subscribe_def proxy_stop_def proxy_close_def emit_def
      quiet_iff is_io_def split: if_splits)

lemma run_calls_quiet:
  "run_calls cs p = Some q \<Longrightarrow> quiet p q"
proof (induction cs arbitrary: p)
  case Nil
  then show ?case by (simp add: quiet_refl)
next
  case (Cons c cs)
  then obtain p1 where 1: "run_call c p = Some p1" and 2: "run_calls cs p1 = Some q"
    by (auto split: option.splits)
  from run_call_quiet [OF 1] Cons.IH [OF 2] show ?case by (blast intro: quiet_trans)
qed


lemma invoke_handler_stopped:
  assumes "m_stopped p" and "invoke_handler h ec p = Some q"
  shows "m_stopped q \<and> quiet p q"
proof -
  have "m_stopped (emit [invoke (handler_id h) ec] p)"
    using assms(1) by (simp add: emit_def)
  from run_calls_stopped [OF this] assms(2)
  have "m_stopped q" "quiet (emit [invoke (handler_id h) ec] p) q"
    by (simp_all add: invoke_handler_def)
  moreover have "quiet p (emit [invoke (handler_id h) ec] p)"
    by (rule quiet_emit) (simp add: is_io_def)
  ultimately show ?thesis by (blast intro: quiet_trans)
qed


lemma apply_op_stopped:
  assumes "m_stopped p" and "\<not> is_start x" and "apply_op env x p = Some q"
  shows "m_stopped q \<and> quiet p q"
proof (cases x)
  case (start_op h)
  with assms show ?thesis by simp
next
  case (stop_op ec)
  with assms show ?thesis by (auto simp: proxy_stop_def quiet_refl split: if_splits)
next
  case (stop_boost_op ec)
  with assms show ?thesis
    by (auto simp: proxy_stop_boost_def proxy_stop_def quiet_refl split: if_splits)
next
  case (subscribe_stop_op h)
  with assms show ?thesis
    by (auto simp: subscribe_stop_def emit_def quiet_iff is_io_def)
next
  case (subscribe_op h)
  with assms show ?thesis
    by (auto simp: subscribe_def emit_def quiet_iff is_io_def)
next
  case (send_op message h cmd)
  with assms show ?thesis
    by (simp add: do_send_def invoke_handler_stopped)
next
  case (send_done_op ec h)
  with assms show ?thesis
    by (simp add: handle_send_def invoke_handler_stopped)
next
  case (heading_read_op ec bytes)
  with assms show ?thesis
    by (auto simp: handle_read_heading_def quiet_same_trace)
next
  case (payload_read_op ec bytes head)
  with assms show ?thesis
    by (auto simp: handle_read_payload_def quiet_same_trace)
qed

lemma run_ops_stopped:
  "m_stopped p \<Longrightarrow> \<not> list_ex is_start xs \<Longrightarrow> run_ops env xs p = Some q \<Longrightarrow>
   m_stopped q \<and> quiet p q"
proof (induction xs arbitrary: p)
  case Nil
  then show ?case by (simp add: quiet_refl)
next
  case (Cons x xs)
  then obtain p1 where 1: "apply_op env x p = Some p1" and 2: "run_ops env xs p1 = Some q"
    by (auto split: option.splits)
  from Cons.prems(2) have nx: "\<not> is_start x" and nxs: "\<not> list_ex is_start xs" by simp_all
  from apply_op_stopped [OF Cons.prems(1) nx 1] have "m_stopped p1" "quiet p p1" by simp_all
  with Cons.IH [OF _ nxs 2] show ?case by (blast intro: quiet_trans)
qed




lemma no_read_iff:
  "no_read p q \<longleftrightarrow> (\<exists>new. m_trace q = m_trace p @ new \<and> \<not> list_ex is_socket_read new)"
proof
  assume "no_read p q"
  then have "m_trace q = m_trace p @ new_events p q"
    "\<not> list_ex is_socket_read (new_events p q)"
    unfolding no_read_def new_events_def
    by (metis append_take_drop_id, simp)
  then show "\<exists>new. m_trace q = m_trace p @ new \<and> \<not> list_ex is_socket_read new" by blast
next
  assume "\<exists>new. m_trace q = m_trace p @ new \<and> \<not> list_ex is_socket_read new"
  then show "no_read p q" by (auto simp: no_read_def new_events_def)
qed

lemma quiet_no_read: "quiet p q \<Longrightarrow> no_read p q"
  by (auto simp: quiet_iff no_read_iff is_io_def list_ex_iff)

lemma no_read_trans: "no_read p q \<Longrightarrow> no_read q r \<Longrightarrow> no_read p r"
  by (auto simp: no_read_iff list_ex_iff)

lemma run_call_unstopped:
  "\<not> is_stop_call c \<Longrightarrow> \<exists>q. run_call c p = Some q \<and> m_stopped q = m_stopped p"
  by (cases c) (simp_all add: subscribe_stop_def subscribe_def emit_def)

lemma run_calls_unstopped:
  "\<not> list_ex is_stop_call cs \<Longrightarrow> \<exists>q. run_calls cs p = Some q \<and> m_stopped q = m_stopped p"
proof (induction cs arbitrary: p)
  case Nil
  then show ?case by simp
next
  case (Cons c cs)
  then have c: "\<not> is_stop_call c" and cs: "\<not> list_ex is_stop_call cs" by simp_all
  from run_call_unstopped [OF c] obtain p1
    where 1: "run_call c p = Some p1" "m_stopped p1 = m_stopped p" by blast
  from Cons.IH [OF cs] obtain q
    where "run_calls cs p1 = Some q" "m_stopped q = m_stopped p1" by blast
  with 1 show ?case by simp
qed

lemma run_call_extends:
  "run_call c p = Some q \<Longrightarrow> set (m_trace p) \<subseteq> set (m_trace q)"
  using run_call_quiet [of c p q] by (auto simp: quiet_iff)

lemma run_calls_extends:
  "run_calls cs p = Some q \<Longrightarrow> set (m_trace p) \<subseteq> set (m_trace q)"
  using run_calls_quiet [of cs p q] by (auto simp: quiet_iff)

lemma run_calls_subscribed:
  "run_calls cs p = Some q \<Longrightarrow> subscribe_call n \<in> set cs \<Longrightarrow>
   message_subscriber_subscribe n \<in> set (new_events p q)"
proof (induction cs arbitrary: p)
  case Nil
  then show ?case by simp
next
  case (Cons c cs)
  then obtain p1 where 1: "run_call c p = Some p1" and 2: "run_calls cs p1 = Some q"
    by (auto split: option.splits)
  from run_call_quiet [OF 1] obtain n1 where n1: "m_trace p1 = m_trace p @ n1"
    by (auto simp: quiet_iff)
  from run_calls_quiet [OF 2] obtain n2 where n2: "m_trace q = m_trace p1 @ n2"
    by (auto simp: quiet_iff)
  have new: "new_events p q = n1 @ n2" "new_events p1 q = n2"
    using n1 n2 by (simp_all add: new_events_def)
  show ?case
  proof (cases "c = subscribe_call n")
    case True
    with 1 have "m_trace p1 = m_trace p @ [message_subscriber_subscribe n]"
      by (auto simp: subscribe_def emit_def)
    with n1 have "n1 = [message_subscriber_subscribe n]" by simp
    with new show ?thesis by simp
  next
    case False
    with Cons.prems(2) have "subscribe_call n \<in> set cs" by simp
    from Cons.IH [OF 2 this] new show ?thesis by simp
  qed
qed

text \<open>
  C7. \<open>proxy_start\<close> on a proxy that is not stopped does nothing itself but call the
  handler with \<open>operation_failed\<close>: no member changes before the handler's own calls
  run. On a stopped proxy it clears the flag, starts the stop subscriber and the message
  subscriber, calls the handler with \<open>success\<close>, and then calls \<open>read_heading\<close>.
  Nothing is read from the socket and nothing is delivered before or while the handler
  runs, and every subscription the handler makes is registered before the first read;
  if the handler does not stop the channel, the read of the first heading is initiated
  last.
\<close>

theorem proxy_start_sequence:
  "(\<not> m_stopped p \<longrightarrow>
      proxy_start h p =
        run_calls (reaction h operation_failed)
          (p\<lparr>m_trace := m_trace p @ [invoke (handler_id h) operation_failed]\<rparr>))
   \<and> (m_stopped p \<longrightarrow>
      proxy_start h p =
        map_option read_heading
          (run_calls (reaction h success)
            (p\<lparr>m_stopped := False,
               m_trace := m_trace p @
                 [stop_subscriber_start, message_subscriber_start,
                  invoke (handler_id h) success]\<rparr>)))
   \<and> (m_stopped p \<longrightarrow>
      (\<forall>r. proxy_start h p = Some r \<longrightarrow>
        (\<exists>mid. m_trace r = m_trace p @
                 [stop_subscriber_start, message_subscriber_start,
                  invoke (handler_id h) success] @ mid @
                 (if m_stopped r then [] else [async_read_heading])
             \<and> \<not> list_ex is_io mid
             \<and> (\<forall>n. subscribe_call n \<in> set (reaction h success) \<longrightarrow>
                    message_subscriber_subscribe n \<in> set mid))))
   \<and> (m_stopped p \<and> \<not> list_ex is_stop_call (reaction h success) \<longrightarrow>
      (\<exists>r. proxy_start h p = Some r \<and> \<not> m_stopped r
           \<and> last (m_trace r) = async_read_heading))"
proof (intro conjI impI allI)
  assume "\<not> m_stopped p"
  then show "proxy_start h p =
        run_calls (reaction h operation_failed)
          (p\<lparr>m_trace := m_trace p @ [invoke (handler_id h) operation_failed]\<rparr>)"
    by (simp add: proxy_start_def invoke_handler_def emit_def)
next
  assume "m_stopped p"
  then show "proxy_start h p =
        map_option read_heading
          (run_calls (reaction h success)
            (p\<lparr>m_stopped := False,
               m_trace := m_trace p @
                 [stop_subscriber_start, message_subscriber_start,
                  invoke (handler_id h) success]\<rparr>))"
    by (simp add: proxy_start_def invoke_handler_def emit_def map_option_case)
next
  fix r
  assume st: "m_stopped p" and r: "proxy_start h p = Some r"
  define p0 where "p0 = p\<lparr>m_stopped := False,
               m_trace := m_trace p @
                 [stop_subscriber_start, message_subscriber_start,
                  invoke (handler_id h) success]\<rparr>"
  from st r obtain q where q: "run_calls (reaction h success) p0 = Some q"
    and rq: "r = read_heading q"
    by (auto simp: proxy_start_def invoke_handler_def emit_def p0_def split: option.splits)
  from run_calls_quiet [OF q] obtain mid
    where mid: "m_trace q = m_trace p0 @ mid" "\<not> list_ex is_io mid"
    by (auto simp: quiet_iff)
  then have ne: "new_events p0 q = mid" by (simp add: new_events_def)
  have sub: "\<forall>n. subscribe_call n \<in> set (reaction h success) \<longrightarrow>
                    message_subscriber_subscribe n \<in> set mid"
    using run_calls_subscribed [OF q] ne by simp
  have "m_trace r = m_trace p @
                 [stop_subscriber_start, message_subscriber_start,
                  invoke (handler_id h) success] @ mid @
                 (if m_stopped r then [] else [async_read_heading])"
    using mid(1) rq by (simp add: read_heading_def emit_def p0_def)
  with mid(2) sub
  show "\<exists>mid. m_trace r = m_trace p @
                 [stop_subscriber_start, message_subscriber_start,
                  invoke (handler_id h) success] @ mid @
                 (if m_stopped r then [] else [async_read_heading])
             \<and> \<not> list_ex is_io mid
             \<and> (\<forall>n. subscribe_call n \<in> set (reaction h success) \<longrightarrow>
                    message_subscriber_subscribe n \<in> set mid)"
    by blast
next
  assume a: "m_stopped p \<and> \<not> list_ex is_stop_call (reaction h success)"
  define p0 where "p0 = emit [invoke (handler_id h) success]
     (emit [stop_subscriber_start, message_subscriber_start] (p\<lparr>m_stopped := False\<rparr>))"
  from a run_calls_unstopped [of "reaction h success" p0] obtain q
    where q: "run_calls (reaction h success) p0 = Some q" "m_stopped q = m_stopped p0"
    by blast
  have "\<not> m_stopped p0" by (simp add: p0_def emit_def)
  with q have "\<not> m_stopped q" by simp
  then have "\<not> m_stopped (read_heading q)" "last (m_trace (read_heading q)) = async_read_heading"
    by (simp_all add: read_heading_def emit_def)
  moreover have "proxy_start h p = Some (read_heading q)"
    using a q(1) by (simp add: proxy_start_def invoke_handler_def p0_def)
  ultimately show "\<exists>r. proxy_start h p = Some r \<and> \<not> m_stopped r
           \<and> last (m_trace r) = async_read_heading"
    by blast
qed

theorem proxy_start_sequence_witness:
  "proxy_start (subscribing_handler 2) running_proxy =
     Some (running_proxy\<lparr>m_trace := [invoke 2 operation_failed]\<rparr>)
   \<and> proxy_start (subscribing_handler 2) (proxy_new 0) =
     Some ((proxy_new 0)\<lparr>m_stopped := False,
        m_trace := [stop_subscriber_start, message_subscriber_start, invoke 2 success,
                    message_subscriber_subscribe 7, async_read_heading]\<rparr>)"
  using proxy_start_sequence [of running_proxy "subscribing_handler 2"]
    proxy_start_sequence [of "proxy_new 0" "subscribing_handler 2"]
  by (simp add: running_proxy_def proxy_new_def subscribing_handler_def subscribe_def
      emit_def read_heading_def)

text \<open>
  C5 as stated fails: the flag of a new proxy is true and a start makes it false; after
  start, stop, start the flag is false again, and the stop call that follows has all
  the effects of a first stop.
\<close>

theorem stopped_flag_one_way_counterexample:
  "m_stopped (proxy_new 0)
   \<and> map_option m_stopped (proxy_start (quiet_handler 1) (proxy_new 0)) = Some False
   \<and> map_option m_stopped
       (run_ops (example_environment None success)
          [start_op (quiet_handler 1), stop_op bad_stream, start_op (quiet_handler 1)]
          (proxy_new 0)) = Some False
   \<and> map_option m_trace
       (run_ops (example_environment None success)
          [start_op (quiet_handler 1), stop_op bad_stream, start_op (quiet_handler 1),
           stop_op channel_stopped]
          (proxy_new 0)) =
     Some ([stop_subscriber_start, message_subscriber_start, invoke 1 success,
            async_read_heading] @ stop_events bad_stream @
           [stop_subscriber_start, message_subscriber_start, invoke 1 success,
            async_read_heading] @ stop_events channel_stopped)"
  by (simp add: proxy_new_def proxy_start_def quiet_handler_def invoke_handler_def emit_def
      read_heading_def proxy_stop_def proxy_close_def stop_events_def)

text \<open>
  C5, as the code has it. A proxy is constructed stopped and \<open>proxy_start\<close> clears the
  flag of a stopped proxy, so the flag also goes from true to false and a proxy can
  run, and be stopped, more than once. What holds: \<open>proxy_stop\<close> with an error code on
  a running proxy sets the flag, stops the message subscriber and broadcasts
  \<open>channel_stopped\<close> to it, stops the stop subscriber and relays the code to it, calls
  \<open>handle_stopping\<close> and closes the socket (shutdown, cancel); on a stopped proxy it
  returns with no effect. No operation other than a start takes the flag from true to
  false, so after a stop every further stop call has no effect until the proxy is
  started again.
\<close>

theorem stop_until_restart:
  assumes "ec \<noteq> success"
  shows "(\<not> m_stopped p \<longrightarrow>
            proxy_stop ec p =
              Some (p\<lparr>m_stopped := True,
                      m_trace := m_trace p @
                        [message_subscriber_stop, message_subscriber_broadcast channel_stopped,
                         stop_subscriber_stop, stop_subscriber_relay ec, handle_stopping,
                         socket_shutdown, socket_cancel]\<rparr>))
       \<and> (m_stopped p \<longrightarrow> proxy_stop ec p = Some p)
       \<and> (\<forall>x q. \<not> is_start x \<longrightarrow> m_stopped p \<longrightarrow> apply_op env x p = Some q \<longrightarrow>
             m_stopped q)
       \<and> (\<forall>xs q r. proxy_stop ec p = Some q \<longrightarrow> \<not> list_ex is_start xs \<longrightarrow>
             run_ops env xs q = Some r \<longrightarrow> m_stopped r \<and> proxy_stop ec r = Some r)"
proof (intro conjI impI allI)
  assume "\<not> m_stopped p"
  with assms show "proxy_stop ec p =
              Some (p\<lparr>m_stopped := True,
                      m_trace := m_trace p @
                        [message_subscriber_stop, message_subscriber_broadcast channel_stopped,
                         stop_subscriber_stop, stop_subscriber_relay ec, handle_stopping,
                         socket_shutdown, socket_cancel]\<rparr>)"
    by (simp add: proxy_stop_running stop_events_def)
next
  assume "m_stopped p"
  with assms show "proxy_stop ec p = Some p" by (simp add: proxy_stop_stopped)
next
  fix x q
  assume "\<not> is_start x" "m_stopped p" "apply_op env x p = Some q"
  from apply_op_stopped [OF this(2) this(1) this(3)] show "m_stopped q" by simp
next
  fix xs q r
  assume q: "proxy_stop ec p = Some q" and xs: "\<not> list_ex is_start xs"
    and r: "run_ops env xs q = Some r"
  from q assms have "m_stopped q"
    by (cases "m_stopped p") (auto simp: proxy_stop_running proxy_stop_stopped)
  from run_ops_stopped [OF this xs r] show "m_stopped r" by simp
  with assms show "proxy_stop ec r = Some r" by (simp add: proxy_stop_stopped)
qed

theorem stop_until_restart_witness:
  "proxy_stop bad_stream running_proxy =
     Some (running_proxy\<lparr>m_stopped := True,
        m_trace := [message_subscriber_stop, message_subscriber_broadcast channel_stopped,
                    stop_subscriber_stop, stop_subscriber_relay bad_stream, handle_stopping,
                    socket_shutdown, socket_cancel]\<rparr>)
   \<and> proxy_stop bad_stream (proxy_new 0) = Some (proxy_new 0)
   \<and> apply_op (example_environment None success) (subscribe_stop_op 3) (proxy_new 0) =
       Some ((proxy_new 0)\<lparr>m_trace := [stop_subscriber_subscribe 3 channel_stopped]\<rparr>)"
  using stop_until_restart [of bad_stream running_proxy, THEN conjunct1]
    stop_until_restart [of bad_stream "proxy_new 0", THEN conjunct2, THEN conjunct1]
  by (simp add: running_proxy_def proxy_new_def subscribe_stop_def emit_def)

lemma handle_read_payload_no_read:
  assumes "handle_read_payload env ec head p = Some q" and "m_stopped q"
  shows "no_read p q"
proof (cases "m_stopped p")
  case True
  with assms show ?thesis by (simp add: handle_read_payload_def no_read_iff)
next
  case run: False
  show ?thesis
  proof (cases "checksum head = bitcoin_checksum env (m_payload_buffer p)")
    case False
    with run assms have "q = p\<lparr>m_stopped := True, m_trace := m_trace p @ stop_events bad_stream\<rparr>"
      by (simp add: handle_read_payload_def proxy_stop_running)
    then show ?thesis by (simp add: no_read_iff stop_events_quiet)
  next
    case sum: True
    obtain parse_error unconsumed meanwhile
      where l: "load env head (m_payload_buffer p) = (parse_error, unconsumed, meanwhile)"
      by (cases "load env head (m_payload_buffer p)") auto
    define pl where "pl = emit [message_subscriber_load head (m_payload_buffer p)] p"
    from run sum l assms(1) obtain p1 where p1: "run_calls meanwhile pl = Some p1"
      by (auto simp: handle_read_payload_def pl_def split: option.splits)
    have "no_read p pl" by (simp add: pl_def emit_def no_read_iff)
    with run_calls_quiet [OF p1] have np1: "no_read p p1"
      by (blast intro: no_read_trans quiet_no_read)
    have rest: "(if m_stopped p1 then Some p1
               else if ec \<noteq> 0 then proxy_stop_boost env ec p1
               else
                 (case (if parse_error \<noteq> success then proxy_stop parse_error p1
                        else Some p1) of
                    None \<Rightarrow> None
                  | Some p2 \<Rightarrow> Some (read_heading (emit [handle_activity] p2)))) = Some q"
      using run sum l p1 assms(1) by (simp add: handle_read_payload_def pl_def)
    have "no_read p1 q"
    proof (cases "m_stopped p1")
      case True
      with rest show ?thesis by (simp add: no_read_iff)
    next
      case r1: False
      show ?thesis
      proof (cases "ec = 0")
        case False
        with r1 rest have "proxy_stop (boost_to_error_code env ec) p1 = Some q"
          by (simp add: proxy_stop_boost_def)
        moreover from this have ne: "boost_to_error_code env ec \<noteq> success"
          by (auto simp: proxy_stop_def split: if_splits)
        ultimately have "q = p1\<lparr>m_stopped := True,
            m_trace := m_trace p1 @ stop_events (boost_to_error_code env ec)\<rparr>"
          using r1 by (simp add: proxy_stop_running)
        then show ?thesis by (simp add: no_read_iff stop_events_quiet)
      next
        case e0: True
        show ?thesis
        proof (cases "parse_error = success")
          case True
          with r1 e0 rest assms(2) show ?thesis
            by (auto simp: read_heading_def emit_def)
        next
          case False
          with r1 e0 rest have "q = p1\<lparr>m_stopped := True,
              m_trace := m_trace p1 @ stop_events parse_error @ [handle_activity]\<rparr>"
            by (simp add: proxy_stop_running read_heading_def emit_def)
          then show ?thesis by (simp add: no_read_iff stop_events_quiet)
        qed
      qed
    qed
    with np1 show ?thesis by (rule no_read_trans)
  qed
qed

text \<open>
  C10 as stated fails: \<open>handle_read_payload\<close> stops the channel for a checksum mismatch,
  and the start that follows initiates the read of a heading.
\<close>

theorem read_after_restart_counterexample:
  "run_ops (example_environment None success)
     [payload_read_op 0 [] ((example_heading 0)\<lparr>checksum := 4\<rparr>),
      start_op (quiet_handler 1)]
     running_proxy =
   Some (running_proxy\<lparr>m_trace := stop_events bad_stream @
      [stop_subscriber_start, message_subscriber_start, invoke 1 success,
       async_read_heading]\<rparr>)"
  by (simp add: running_proxy_def proxy_new_def example_environment_def example_heading_def
      quiet_handler_def proxy_stop_def proxy_close_def emit_def stop_events_def
      proxy_start_def invoke_handler_def read_heading_def
      handle_read_payload_def fill_def)

text \<open>
  C10, as the code has it. On a running channel, \<open>handle_read_payload\<close> stops the channel
  with \<open>bad_stream\<close> on a checksum mismatch, with the transport error when there is one
  (after the load), and with the parse error of the load otherwise. In the last case the
  function does not return after the stop: it goes on to \<open>handle_activity\<close> and
  \<open>read_heading\<close>, which returns at once because the flag is set. Whenever
  \<open>handle_read_payload\<close> leaves the channel stopped it has initiated no socket read, and
  none is initiated by anything that follows until the channel is started again.
\<close>

theorem failed_payload_ends_reading:
  assumes "\<not> m_stopped p"
  shows "(checksum head \<noteq> bitcoin_checksum env (m_payload_buffer p) \<longrightarrow>
            handle_read_payload env ec head p =
              Some (p\<lparr>m_stopped := True, m_trace := m_trace p @ stop_events bad_stream\<rparr>))
       \<and> (checksum head = bitcoin_checksum env (m_payload_buffer p)
          \<and> load env head (m_payload_buffer p) = (parse_error, unconsumed, meanwhile)
          \<and> run_calls meanwhile
               (emit [message_subscriber_load head (m_payload_buffer p)] p) = Some p1
          \<and> \<not> m_stopped p1 \<longrightarrow>
            (ec \<noteq> 0 \<and> boost_to_error_code env ec \<noteq> success \<longrightarrow>
               handle_read_payload env ec head p =
                 Some (p1\<lparr>m_stopped := True,
                         m_trace := m_trace p1 @ stop_events (boost_to_error_code env ec)\<rparr>))
          \<and> (ec = 0 \<and> parse_error \<noteq> success \<longrightarrow>
               handle_read_payload env ec head p =
                 Some (p1\<lparr>m_stopped := True,
                         m_trace := m_trace p1 @ stop_events parse_error @ [handle_activity]\<rparr>)
               \<and> read_heading (p1\<lparr>m_stopped := True,
                         m_trace := m_trace p1 @ stop_events parse_error @ [handle_activity]\<rparr>)
                  = p1\<lparr>m_stopped := True,
                         m_trace := m_trace p1 @ stop_events parse_error @ [handle_activity]\<rparr>))
       \<and> (\<forall>q. handle_read_payload env ec head p = Some q \<longrightarrow> m_stopped q \<longrightarrow>
             no_read p q
             \<and> (\<forall>xs r. \<not> list_ex is_start xs \<longrightarrow> run_ops env xs q = Some r \<longrightarrow>
                   m_stopped r \<and> no_read p r))"
proof (intro conjI impI allI)
  assume "checksum head \<noteq> bitcoin_checksum env (m_payload_buffer p)"
  with assms show "handle_read_payload env ec head p =
              Some (p\<lparr>m_stopped := True, m_trace := m_trace p @ stop_events bad_stream\<rparr>)"
    by (simp add: handle_read_payload_def proxy_stop_running)
next
  assume a: "checksum head = bitcoin_checksum env (m_payload_buffer p)
          \<and> load env head (m_payload_buffer p) = (parse_error, unconsumed, meanwhile)
          \<and> run_calls meanwhile
               (emit [message_subscriber_load head (m_payload_buffer p)] p) = Some p1
          \<and> \<not> m_stopped p1"
    and b: "ec \<noteq> 0 \<and> boost_to_error_code env ec \<noteq> success"
  with assms show "handle_read_payload env ec head p =
                 Some (p1\<lparr>m_stopped := True,
                         m_trace := m_trace p1 @ stop_events (boost_to_error_code env ec)\<rparr>)"
    by (simp add: handle_read_payload_def proxy_stop_boost_def proxy_stop_running)
next
  assume a: "checksum head = bitcoin_checksum env (m_payload_buffer p)
          \<and> load env head (m_payload_buffer p) = (parse_error, unconsumed, meanwhile)
          \<and> run_calls meanwhile
               (emit [message_subscriber_load head (m_payload_buffer p)] p) = Some p1
          \<and> \<not> m_stopped p1"
    and b: "ec = 0 \<and> parse_error \<noteq> success"
  with assms show "handle_read_payload env ec head p =
                 Some (p1\<lparr>m_stopped := True,
                         m_trace := m_trace p1 @ stop_events parse_error @ [handle_activity]\<rparr>)"
    by (simp add: handle_read_payload_def proxy_stop_running read_heading_def emit_def)
  show "read_heading (p1\<lparr>m_stopped := True,
                         m_trace := m_trace p1 @ stop_events parse_error @ [handle_activity]\<rparr>)
                  = p1\<lparr>m_stopped := True,
                         m_trace := m_trace p1 @ stop_events parse_error @ [handle_activity]\<rparr>"
    by (simp add: read_heading_def)
next
  fix q
  assume q: "handle_read_payload env ec head p = Some q" "m_stopped q"
  from handle_read_payload_no_read [OF q] show "no_read p q" .
next
  fix q xs r
  assume q: "handle_read_payload env ec head p = Some q" "m_stopped q"
    and xs: "\<not> list_ex is_start xs" "run_ops env xs q = Some r"
  from run_ops_stopped [OF q(2) xs] show "m_stopped r" by simp
  from run_ops_stopped [OF q(2) xs] handle_read_payload_no_read [OF q]
  show "no_read p r" by (blast intro: no_read_trans quiet_no_read)
qed

theorem failed_payload_ends_reading_witness:
  "handle_read_payload (example_environment None bad_stream) 0
       ((example_heading 0)\<lparr>checksum := 4\<rparr>) running_proxy =
     Some (running_proxy\<lparr>m_stopped := True, m_trace := stop_events bad_stream\<rparr>)
   \<and> handle_read_payload (example_environment None success) 9 (example_heading 0)
       running_proxy =
     Some (running_proxy\<lparr>m_stopped := True,
        m_trace := message_subscriber_load (example_heading 0) [] # stop_events (transport 9)\<rparr>)
   \<and> handle_read_payload (example_environment None file_system) 0 (example_heading 0)
       running_proxy =
     Some (running_proxy\<lparr>m_stopped := True,
        m_trace := message_subscriber_load (example_heading 0) [] # stop_events file_system
                   @ [handle_activity]\<rparr>)"
  using failed_payload_ends_reading [of running_proxy "(example_heading 0)\<lparr>checksum := 4\<rparr>"
        "example_environment None bad_stream" 0 bad_stream False "[]" running_proxy,
        THEN conjunct1]
    failed_payload_ends_reading [of running_proxy "example_heading 0"
        "example_environment None success" 9 success False "[]"
        "emit [message_subscriber_load (example_heading 0) []] running_proxy",
        THEN conjunct2, THEN conjunct1]
    failed_payload_ends_reading [of running_proxy "example_heading 0"
        "example_environment None file_system" 0 file_system False "[]"
        "emit [message_subscriber_load (example_heading 0) []] running_proxy",
        THEN conjunct2, THEN conjunct1]
  by (simp add: running_proxy_def proxy_new_def example_environment_def example_heading_def
      emit_def)

section \<open>Properties of the session manager\<close>

lemma p2p_stop_running:
  "\<not> n_stopped m \<Longrightarrow>
   p2p_stop env h m =
     m\<lparr>n_stopped := True, n_manual := False,
       n_trace := n_trace m @
         [subscriber_stop, subscriber_relay service_stopped, connections_stop service_stopped,
          hosts_save, threadpool_shutdown, p2p_invoke h (hosts_save_result env)]\<rparr>"
  by (simp add: p2p_stop_def p2p_emit_def Let_def)

lemma p2p_stop_stopped:
  "n_stopped m \<Longrightarrow>
   p2p_stop env h m = m\<lparr>n_manual := False, n_trace := n_trace m @ stopped_stop_events h\<rparr>"
  by (cases m) (simp add: p2p_stop_def p2p_emit_def Let_def stopped_stop_events_def)

lemma p2p_stops_stopped:
  "n_stopped m \<Longrightarrow> \<not> n_manual m \<Longrightarrow>
   p2p_stops calls m =
     m\<lparr>n_trace := n_trace m @ concat (map (\<lambda>(e, h). stopped_stop_events h) calls)\<rparr>"
proof (induction calls arbitrary: m)
  case Nil
  then show ?case by simp
next
  case (Cons c calls)
  obtain e h where c: "c = (e, h)" by (cases c)
  let ?m1 = "p2p_stop e h m"
  have m1: "?m1 = m\<lparr>n_trace := n_trace m @ stopped_stop_events h\<rparr>"
    using Cons.prems by (cases m) (simp add: p2p_stop_stopped)
  then have "n_stopped ?m1" "\<not> n_manual ?m1" using Cons.prems by simp_all
  from Cons.IH [OF this] m1 c show ?case by simp
qed

text \<open>
  C9. \<open>p2p_stop\<close> on a running manager stops the subscriber and relays
  \<open>service_stopped\<close>, stops the connections, clears the manual session, saves the
  hosts, sets the flag, shuts the thread pool down and calls the handler with the result
  of the save. On a stopped manager it does the same without saving the hosts and calls
  the handler with \<open>success\<close>. Every call leaves the manager stopped, so in any
  number of further consecutive calls no hosts are saved and each handler is called with
  \<open>success\<close>.
\<close>

theorem p2p_stop_idempotent:
  "(\<not> n_stopped m \<longrightarrow>
      p2p_stop env h m =
        m\<lparr>n_stopped := True, n_manual := False,
          n_trace := n_trace m @
            [subscriber_stop, subscriber_relay service_stopped,
             connections_stop service_stopped, hosts_save, threadpool_shutdown,
             p2p_invoke h (hosts_save_result env)]\<rparr>)
   \<and> (n_stopped m \<longrightarrow>
      p2p_stop env h m =
        m\<lparr>n_manual := False,
          n_trace := n_trace m @
            [subscriber_stop, subscriber_relay service_stopped,
             connections_stop service_stopped, threadpool_shutdown,
             p2p_invoke h success]\<rparr>)
   \<and> n_stopped (p2p_stop env h m)
   \<and> p2p_stops calls (p2p_stop env h m) =
       (p2p_stop env h m)\<lparr>n_trace := n_trace (p2p_stop env h m) @
          concat (map (\<lambda>(e, h'). stopped_stop_events h') calls)\<rparr>
   \<and> hosts_save \<notin> set (concat (map (\<lambda>(e, h'). stopped_stop_events h') calls))"
proof (intro conjI impI)
  assume "\<not> n_stopped m"
  then show "p2p_stop env h m =
        m\<lparr>n_stopped := True, n_manual := False,
          n_trace := n_trace m @
            [subscriber_stop, subscriber_relay service_stopped,
             connections_stop service_stopped, hosts_save, threadpool_shutdown,
             p2p_invoke h (hosts_save_result env)]\<rparr>"
    by (rule p2p_stop_running)
next
  assume "n_stopped m"
  then show "p2p_stop env h m =
        m\<lparr>n_manual := False,
          n_trace := n_trace m @
            [subscriber_stop, subscriber_relay service_stopped,
             connections_stop service_stopped, threadpool_shutdown,
             p2p_invoke h success]\<rparr>"
    by (simp add: p2p_stop_stopped stopped_stop_events_def)
next
  show s: "n_stopped (p2p_stop env h m)"
    by (cases "n_stopped m") (simp_all add: p2p_stop_running p2p_stop_stopped)
  have "\<not> n_manual (p2p_stop env h m)"
    by (cases "n_stopped m") (simp_all add: p2p_stop_running p2p_stop_stopped)
  with s show "p2p_stops calls (p2p_stop env h m) =
       (p2p_stop env h m)\<lparr>n_trace := n_trace (p2p_stop env h m) @
          concat (map (\<lambda>(e, h'). stopped_stop_events h') calls)\<rparr>"
    by (rule p2p_stops_stopped)
next
  show "hosts_save \<notin> set (concat (map (\<lambda>(e, h'). stopped_stop_events h') calls))"
    by (auto simp: stopped_stop_events_def)
qed

theorem p2p_stop_idempotent_witness:
  "p2p_stop (example_settings None success None file_system) 1 running_p2p =
     running_p2p\<lparr>n_stopped := True, n_manual := False,
       n_trace := [subscriber_stop, subscriber_relay service_stopped,
                   connections_stop service_stopped, hosts_save, threadpool_shutdown,
                   p2p_invoke 1 file_system]\<rparr>
   \<and> p2p_stop (example_settings None success None file_system) 2 p2p_new =
     p2p_new\<lparr>n_trace := [subscriber_stop, subscriber_relay service_stopped,
                   connections_stop service_stopped, threadpool_shutdown,
                   p2p_invoke 2 success]\<rparr>"
  using p2p_stop_idempotent [of running_p2p "example_settings None success None file_system" 1,
      THEN conjunct1]
    p2p_stop_idempotent [of p2p_new "example_settings None success None file_system" 2,
      THEN conjunct2, THEN conjunct1]
  by (simp add: running_p2p_def p2p_new_def example_settings_def)

lemma handle_hosts_seeded_cases:
  "n_stopped m \<Longrightarrow>
     handle_hosts_seeded ec h m = m\<lparr>n_trace := n_trace m @ [p2p_invoke h service_stopped]\<rparr>"
  "\<not> n_stopped m \<Longrightarrow>
     handle_hosts_seeded ec h m = m\<lparr>n_trace := n_trace m @ [p2p_invoke h ec]\<rparr>"
  by (simp_all add: handle_hosts_seeded_def p2p_emit_def)

lemma handle_hosts_loaded_cases:
  "n_stopped m \<Longrightarrow>
     handle_hosts_loaded env ec h m =
       m\<lparr>n_trace := n_trace m @ [p2p_invoke h service_stopped]\<rparr>"
  "\<not> n_stopped m \<Longrightarrow> ec \<noteq> success \<Longrightarrow>
     handle_hosts_loaded env ec h m = m\<lparr>n_trace := n_trace m @ [p2p_invoke h ec]\<rparr>"
  "\<not> n_stopped m \<Longrightarrow> seed_start env = None \<Longrightarrow>
     handle_hosts_loaded env success h m =
       m\<lparr>n_trace := n_trace m @ [attach session_seed, session_start session_seed]\<rparr>"
  "\<not> n_stopped m \<Longrightarrow> seed_start env = Some ec1 \<Longrightarrow>
     handle_hosts_loaded env success h m =
       m\<lparr>n_trace := n_trace m @
           [attach session_seed, session_start session_seed, p2p_invoke h ec1]\<rparr>"
  by (auto simp: handle_hosts_loaded_def handle_hosts_seeded_def p2p_emit_def Let_def)

lemma handle_manual_started_cases:
  "n_stopped m \<Longrightarrow>
     handle_manual_started env ec h m =
       m\<lparr>n_trace := n_trace m @ [p2p_invoke h service_stopped]\<rparr>"
  "\<not> n_stopped m \<Longrightarrow> ec \<noteq> success \<Longrightarrow>
     handle_manual_started env ec h m = m\<lparr>n_trace := n_trace m @ [p2p_invoke h ec]\<rparr>"
  "\<not> n_stopped m \<Longrightarrow>
     handle_manual_started env success h m =
       handle_hosts_loaded env (hosts_load_result env) h
         (m\<lparr>n_trace := n_trace m @ [hosts_load]\<rparr>)"
  by (simp_all add: handle_manual_started_def p2p_emit_def)

text \<open>
  C8. \<open>p2p_start\<close> on a manager that is not stopped only calls the handler with
  \<open>operation_failed\<close>. On a stopped manager it clears the flag, starts the subscriber,
  joins and spawns the thread pool, attaches and starts the manual session and stores
  it. Each step of the chain (manual session started, hosts loaded, hosts seeded) calls
  the handler with \<open>service_stopped\<close> when the manager has been stopped meanwhile,
  with the step's error code when there is one, and otherwise goes on: to the load of
  the hosts, to the start of the seed session, and at the end to the handler with
  \<open>success\<close>. After the handler has been called with an error nothing more of the
  chain is done. The last four parts give the whole trace when both sessions call back
  before their \<open>start\<close> returns.
\<close>

theorem p2p_start_chain:
  "(\<not> n_stopped m \<longrightarrow>
      p2p_start env h m = m\<lparr>n_trace := n_trace m @ [p2p_invoke h operation_failed]\<rparr>)
   \<and> (n_stopped m \<and> manual_start env = None \<longrightarrow>
      p2p_start env h m =
        m\<lparr>n_stopped := False, n_manual := True, n_trace := n_trace m @ start_events env\<rparr>)
   \<and> (n_stopped m \<and> manual_start env = Some ec \<longrightarrow>
      p2p_start env h m =
        (handle_manual_started env ec h
           (m\<lparr>n_stopped := False, n_trace := n_trace m @ start_events env\<rparr>))
        \<lparr>n_manual := True\<rparr>)
   \<and> (n_stopped m \<longrightarrow>
      handle_manual_started env ec h m =
        m\<lparr>n_trace := n_trace m @ [p2p_invoke h service_stopped]\<rparr>
      \<and> handle_hosts_loaded env ec h m =
        m\<lparr>n_trace := n_trace m @ [p2p_invoke h service_stopped]\<rparr>
      \<and> handle_hosts_seeded ec h m =
        m\<lparr>n_trace := n_trace m @ [p2p_invoke h service_stopped]\<rparr>)
   \<and> (\<not> n_stopped m \<and> ec \<noteq> success \<longrightarrow>
      handle_manual_started env ec h m = m\<lparr>n_trace := n_trace m @ [p2p_invoke h ec]\<rparr>
      \<and> handle_hosts_loaded env ec h m = m\<lparr>n_trace := n_trace m @ [p2p_invoke h ec]\<rparr>
      \<and> handle_hosts_seeded ec h m = m\<lparr>n_trace := n_trace m @ [p2p_invoke h ec]\<rparr>)
   \<and> (\<not> n_stopped m \<longrightarrow>
      handle_manual_started env success h m =
        handle_hosts_loaded env (hosts_load_result env) h
          (m\<lparr>n_trace := n_trace m @ [hosts_load]\<rparr>)
      \<and> handle_hosts_loaded env success h m =
        (case seed_start env of
           None \<Rightarrow> m\<lparr>n_trace := n_trace m @ [attach session_seed, session_start session_seed]\<rparr>
         | Some ec1 \<Rightarrow>
             handle_hosts_seeded ec1 h
               (m\<lparr>n_trace := n_trace m @ [attach session_seed, session_start session_seed]\<rparr>))
      \<and> handle_hosts_seeded success h m =
        m\<lparr>n_trace := n_trace m @ [p2p_invoke h success]\<rparr>)
   \<and> (n_stopped m \<and> manual_start env = Some success \<and> hosts_load_result env = success
        \<and> seed_start env = Some success \<longrightarrow>
      p2p_start env h m =
        m\<lparr>n_stopped := False, n_manual := True,
          n_trace := n_trace m @ start_events env @
            [hosts_load, attach session_seed, session_start session_seed,
             p2p_invoke h success]\<rparr>)
   \<and> (n_stopped m \<and> manual_start env = Some ec \<and> ec \<noteq> success \<longrightarrow>
      p2p_start env h m =
        m\<lparr>n_stopped := False, n_manual := True,
          n_trace := n_trace m @ start_events env @ [p2p_invoke h ec]\<rparr>)
   \<and> (n_stopped m \<and> manual_start env = Some success \<and> hosts_load_result env = ec
        \<and> ec \<noteq> success \<longrightarrow>
      p2p_start env h m =
        m\<lparr>n_stopped := False, n_manual := True,
          n_trace := n_trace m @ start_events env @ [hosts_load, p2p_invoke h ec]\<rparr>)
   \<and> (n_stopped m \<and> manual_start env = Some success \<and> hosts_load_result env = success
        \<and> seed_start env = Some ec \<and> ec \<noteq> success \<longrightarrow>
      p2p_start env h m =
        m\<lparr>n_stopped := False, n_manual := True,
          n_trace := n_trace m @ start_events env @
            [hosts_load, attach session_seed, session_start session_seed,
             p2p_invoke h ec]\<rparr>)"
proof -
  have start_inline: "n_stopped m \<Longrightarrow> manual_start env = Some c \<Longrightarrow>
      p2p_start env h m =
        (handle_manual_started env c h
           (m\<lparr>n_stopped := False, n_trace := n_trace m @ start_events env\<rparr>))
        \<lparr>n_manual := True\<rparr>" for c
    by (simp add: p2p_start_def p2p_emit_def start_events_def Let_def)
  have 1: "\<not> n_stopped m \<longrightarrow>
      p2p_start env h m = m\<lparr>n_trace := n_trace m @ [p2p_invoke h operation_failed]\<rparr>"
    by (simp add: p2p_start_def p2p_emit_def)
  have 2: "n_stopped m \<and> manual_start env = None \<longrightarrow>
      p2p_start env h m =
        m\<lparr>n_stopped := False, n_manual := True, n_trace := n_trace m @ start_events env\<rparr>"
    by (simp add: p2p_start_def p2p_emit_def start_events_def Let_def)
  have 3: "n_stopped m \<and> manual_start env = Some ec \<longrightarrow>
      p2p_start env h m =
        (handle_manual_started env ec h
           (m\<lparr>n_stopped := False, n_trace := n_trace m @ start_events env\<rparr>))
        \<lparr>n_manual := True\<rparr>"
    by (simp add: start_inline)
  have 4: "n_stopped m \<longrightarrow>
      handle_manual_started env ec h m =
        m\<lparr>n_trace := n_trace m @ [p2p_invoke h service_stopped]\<rparr>
      \<and> handle_hosts_loaded env ec h m =
        m\<lparr>n_trace := n_trace m @ [p2p_invoke h service_stopped]\<rparr>
      \<and> handle_hosts_seeded ec h m =
        m\<lparr>n_trace := n_trace m @ [p2p_invoke h service_stopped]\<rparr>"
    by (simp add: handle_manual_started_cases handle_hosts_loaded_cases
        handle_hosts_seeded_cases)
  have 5: "\<not> n_stopped m \<and> ec \<noteq> success \<longrightarrow>
      handle_manual_started env ec h m = m\<lparr>n_trace := n_trace m @ [p2p_invoke h ec]\<rparr>
      \<and> handle_hosts_loaded env ec h m = m\<lparr>n_trace := n_trace m @ [p2p_invoke h ec]\<rparr>
      \<and> handle_hosts_seeded ec h m = m\<lparr>n_trace := n_trace m @ [p2p_invoke h ec]\<rparr>"
    by (simp add: handle_manual_started_cases handle_hosts_loaded_cases
        handle_hosts_seeded_cases)
  have 6: "\<not> n_stopped m \<longrightarrow>
      handle_manual_started env success h m =
        handle_hosts_loaded env (hosts_load_result env) h
          (m\<lparr>n_trace := n_trace m @ [hosts_load]\<rparr>)
      \<and> handle_hosts_loaded env success h m =
        (case seed_start env of
           None \<Rightarrow> m\<lparr>n_trace := n_trace m @ [attach session_seed, session_start session_seed]\<rparr>
         | Some ec1 \<Rightarrow>
             handle_hosts_seeded ec1 h
               (m\<lparr>n_trace := n_trace m @ [attach session_seed, session_start session_seed]\<rparr>))
      \<and> handle_hosts_seeded success h m =
        m\<lparr>n_trace := n_trace m @ [p2p_invoke h success]\<rparr>"
    by (simp add: handle_manual_started_cases handle_hosts_seeded_cases
        handle_hosts_loaded_def p2p_emit_def Let_def)
  have 7: "n_stopped m \<and> manual_start env = Some success \<and> hosts_load_result env = success
        \<and> seed_start env = Some success \<longrightarrow>
      p2p_start env h m =
        m\<lparr>n_stopped := False, n_manual := True,
          n_trace := n_trace m @ start_events env @
            [hosts_load, attach session_seed, session_start session_seed,
             p2p_invoke h success]\<rparr>"
    by (simp add: start_inline handle_manual_started_cases handle_hosts_loaded_cases)
  have 8: "n_stopped m \<and> manual_start env = Some ec \<and> ec \<noteq> success \<longrightarrow>
      p2p_start env h m =
        m\<lparr>n_stopped := False, n_manual := True,
          n_trace := n_trace m @ start_events env @ [p2p_invoke h ec]\<rparr>"
    by (simp add: start_inline handle_manual_started_cases)
  have 9: "n_stopped m \<and> manual_start env = Some success \<and> hosts_load_result env = ec
        \<and> ec \<noteq> success \<longrightarrow>
      p2p_start env h m =
        m\<lparr>n_stopped := False, n_manual := True,
          n_trace := n_trace m @ start_events env @ [hosts_load, p2p_invoke h ec]\<rparr>"
    by (auto simp: start_inline handle_manual_started_cases handle_hosts_loaded_cases)
  have 10: "n_stopped m \<and> manual_start env = Some success \<and> hosts_load_result env = success
        \<and> seed_start env = Some ec \<and> ec \<noteq> success \<longrightarrow>
      p2p_start env h m =
        m\<lparr>n_stopped := False, n_manual := True,
          n_trace := n_trace m @ start_events env @
            [hosts_load, attach session_seed, session_start session_seed,
             p2p_invoke h ec]\<rparr>"
    by (simp add: start_inline handle_manual_started_cases handle_hosts_loaded_cases)
  from 1 2 3 4 5 6 7 8 9 10 show ?thesis by blast
qed

theorem p2p_start_chain_witness:
  "p2p_start (example_settings (Some success) success (Some success) success) 5 running_p2p =
     running_p2p\<lparr>n_trace := [p2p_invoke 5 operation_failed]\<rparr>
   \<and> p2p_start (example_settings (Some success) success (Some success) success) 5 p2p_new =
     p2p_new\<lparr>n_stopped := False, n_manual := True,
       n_trace := [subscriber_start, threadpool_join, threadpool_spawn 4,
                   attach session_manual, session_start session_manual, hosts_load,
                   attach session_seed, session_start session_seed, p2p_invoke 5 success]\<rparr>
   \<and> p2p_start (example_settings (Some success) file_system (Some success) success) 5 p2p_new =
     p2p_new\<lparr>n_stopped := False, n_manual := True,
       n_trace := [subscriber_start, threadpool_join, threadpool_spawn 4,
                   attach session_manual, session_start session_manual, hosts_load,
                   p2p_invoke 5 file_system]\<rparr>
   \<and> handle_hosts_seeded success 5 p2p_new =
     p2p_new\<lparr>n_trace := [p2p_invoke 5 service_stopped]\<rparr>"
  using p2p_start_chain [where m = running_p2p and h = 5
        and env = "example_settings (Some success) success (Some success) success",
        THEN conjunct1]
    p2p_start_chain [where m = p2p_new and h = 5
        and env = "example_settings (Some success) success (Some success) success",
        THEN conjunct2, THEN conjunct2, THEN conjunct2, THEN conjunct2, THEN conjunct2,
        THEN conjunct2, THEN conjunct1]
    p2p_start_chain [where m = p2p_new and h = 5 and ec = file_system
        and env = "example_settings (Some success) file_system (Some success) success",
        THEN conjunct2, THEN conjunct2, THEN conjunct2, THEN conjunct2, THEN conjunct2,
        THEN conjunct2, THEN conjunct2, THEN conjunct2, THEN conjunct1]
    p2p_start_chain [where m = p2p_new and h = 5 and ec = success
        and env = "example_settings (Some success) success (Some success) success",
        THEN conjunct2, THEN conjunct2, THEN conjunct2, THEN conjunct1]
  by (simp add: running_p2p_def p2p_new_def example_settings_def start_events_def)

section \<open>Properties of scripts\<close>

lemma unat_byte: "n < 256 \<Longrightarrow> unat (of_nat n :: byte) = n"
  by (simp add: unat_of_nat)

lemma length_to_little_endian: "length (to_little_endian k v) = k"
  by (induction k arbitrary: v) simp_all

lemma from_to_little_endian:
  "from_little_endian (to_little_endian k v) = v mod 256 ^ k"
proof (induction k arbitrary: v)
  case 0
  then show ?case by simp
next
  case (Suc k)
  have "from_little_endian (to_little_endian (Suc k) v) =
        v mod 256 + 256 * (v div 256 mod 256 ^ k)"
    by (simp add: Suc.IH unat_byte)
  also have "\<dots> = v mod (256 * 256 ^ k)"
    by (simp add: mod_mult2_eq)
  finally show ?case by simp
qed

lemma from_little_endian_bound:
  "from_little_endian bs < 256 ^ length bs"
proof (induction bs)
  case Nil
  then show ?case by simp
next
  case (Cons b bs)
  have "unat b < 2 ^ LENGTH(8)" by (rule unsigned_less)
  then have "unat b < 256" by simp
  with Cons show ?case by simp
qed

lemma read_push_exact:
  "read_push tag (length payload) (payload @ rest) = Some (\<lparr>code = tag, data = payload\<rparr>, rest)"
  by (simp add: read_push_def)

lemma read_sized_push_exact:
  "length payload < 256 ^ k \<Longrightarrow>
   read_sized_push tag k (to_little_endian k (length payload) @ payload @ rest) =
     Some (\<lparr>code = tag, data = payload\<rparr>, rest)"
  by (simp add: read_sized_push_def length_to_little_endian from_to_little_endian
      read_push_exact)

lemma parse_save_push:
  assumes "smallest_push (length payload) = Some tag"
  shows "\<exists>b bs. save_push payload = b # bs
           \<and> parse_operation b (bs @ rest) = Some (\<lparr>code = tag, data = payload\<rparr>, rest)"
proof -
  let ?n = "length payload"
  consider (a) "?n = 0" | (b) "0 < ?n" "?n \<le> 75" | (c) "75 < ?n" "?n \<le> 255"
    | (d) "255 < ?n" "?n \<le> 65535" | (e) "65535 < ?n" "?n < 2 ^ 32"
    using assms by (auto simp: smallest_push_def split: if_splits)
  then show ?thesis
  proof cases
    case a
    with assms show ?thesis
      by (simp add: save_push_def parse_operation_def smallest_push_def)
  next
    case b
    then have u: "unat (of_nat ?n :: byte) = ?n" by (simp add: unat_byte)
    then have nz: "(of_nat ?n :: byte) \<noteq> 0" using b(1) by (metis unat_0 less_numeral_extra(3))
    have t: "tag = raw_data" using assms b by (simp add: smallest_push_def)
    show ?thesis
      using b u nz t read_push_exact [of raw_data payload rest]
      by (simp add: save_push_def parse_operation_def)
  next
    case c
    have t: "tag = pushdata1" using assms c by (simp add: smallest_push_def)
    have "?n < 256 ^ 1" using c by simp
    from read_sized_push_exact [OF this, of pushdata1 rest] c t show ?thesis
      by (simp add: save_push_def parse_operation_def)
  next
    case d
    have t: "tag = pushdata2" using assms d by (simp add: smallest_push_def)
    have "?n < 256 ^ 2" using d by simp
    from read_sized_push_exact [OF this, of pushdata2 rest] d t show ?thesis
      by (simp add: save_push_def parse_operation_def)
  next
    case e
    have t: "tag = pushdata4" using assms e by (simp add: smallest_push_def)
    have "?n < 256 ^ 4" using e by simp
    from read_sized_push_exact [OF this, of pushdata4 rest] e t show ?thesis
      by (simp add: save_push_def parse_operation_def)
  qed
qed

lemma byte_to_opcode_value:
  "\<not> is_push c \<Longrightarrow> c \<noteq> special \<Longrightarrow>
   byte_to_opcode (of_nat (opcode_value c)) = c
   \<and> (of_nat (opcode_value c) :: byte) \<noteq> 0
   \<and> \<not> unat (of_nat (opcode_value c) :: byte) \<le> 75
   \<and> (of_nat (opcode_value c) :: byte) \<noteq> 0x4C
   \<and> (of_nat (opcode_value c) :: byte) \<noteq> 0x4D
   \<and> (of_nat (opcode_value c) :: byte) \<noteq> 0x4E"
  by (cases c) (simp_all add: byte_to_opcode_def opcodes_def)

lemma parse_save_operation:
  assumes "well_formed_operation oper"
  shows "\<exists>b bs. save_operation oper = b # bs
           \<and> parse_operation b (bs @ rest) = Some (oper, rest)"
proof (cases "is_push (code oper)")
  case True
  with assms have "smallest_push (length (data oper)) = Some (code oper)"
    by (simp add: well_formed_operation_def)
  from parse_save_push [OF this, of rest] obtain b bs
    where b: "save_push (data oper) = b # bs"
      "parse_operation b (bs @ rest) = Some (\<lparr>code = code oper, data = data oper\<rparr>, rest)"
    by blast
  have "\<lparr>code = code oper, data = data oper\<rparr> = oper" by simp
  with b have "parse_operation b (bs @ rest) = Some (oper, rest)" by metis
  with b(1) True show ?thesis by (simp add: save_operation_def)
next
  case False
  with assms have "code oper \<noteq> special" "data oper = []"
    by (simp_all add: well_formed_operation_def)
  with False byte_to_opcode_value [of "code oper"] show ?thesis
    by (simp add: save_operation_def parse_operation_def)
qed

lemma parse_save_operations:
  "list_all well_formed_operation opers \<Longrightarrow>
   parse_operations (concat (map save_operation opers)) = Some opers"
proof (induction opers)
  case Nil
  then show ?case by simp
next
  case (Cons oper opers)
  then have wf: "well_formed_operation oper" and rest: "list_all well_formed_operation opers"
    by simp_all
  from parse_save_operation [OF wf, of "concat (map save_operation opers)"]
  obtain b bs where "save_operation oper = b # bs"
    "parse_operation b (bs @ concat (map save_operation opers)) =
       Some (oper, concat (map save_operation opers))"
    by blast
  with Cons.IH [OF rest] show ?case by simp
qed

lemma find_in_set: "find P xs = Some x \<Longrightarrow> x \<in> set xs"
  by (induction xs) (auto split: if_splits)

lemma byte_to_opcode_no_push: "\<not> is_push (byte_to_opcode b)"
proof -
  have "\<forall>c \<in> set opcodes. \<not> is_push c" by (simp add: opcodes_def)
  then show ?thesis
    by (auto simp: byte_to_opcode_def split: option.splits dest: find_in_set)
qed

lemma read_push_all:
  "read_push tag n bs = Some (oper, []) \<Longrightarrow> length (data oper) = n \<and> length bs = n"
  by (auto simp: read_push_def split: if_splits)

lemma save_push_length:
  "length (save_push payload) \<le> length payload + 5"
  "length payload \<le> 75 \<Longrightarrow> length (save_push payload) = length payload + 1"
  "length payload \<le> 255 \<Longrightarrow> length (save_push payload) \<le> length payload + 2"
  "length payload \<le> 65535 \<Longrightarrow> length (save_push payload) \<le> length payload + 3"
  by (simp_all add: save_push_def Let_def length_to_little_endian)

lemma read_sized_push_all:
  assumes "read_sized_push tag k bs = Some (oper, [])"
  shows "length bs = k + length (data oper) \<and> length (data oper) < 256 ^ k"
proof -
  from assms have k: "k \<le> length bs"
    and r: "read_push tag (from_little_endian (take k bs)) (drop k bs) = Some (oper, [])"
    by (auto simp: read_sized_push_def split: if_splits)
  from read_push_all [OF r] have "length (data oper) = from_little_endian (take k bs)"
    "length bs - k = from_little_endian (take k bs)" by simp_all
  moreover have "from_little_endian (take k bs) < 256 ^ k"
    using from_little_endian_bound [of "take k bs"] k by (simp add: min_absorb2)
  ultimately show ?thesis using k by simp
qed

lemma save_push_smallest:
  assumes "parse_operation b bs = Some (oper, [])" and "is_push (code oper)"
  shows "length (save_push (data oper)) \<le> length (b # bs)"
proof -
  consider (z) "b = 0" | (r) "b \<noteq> 0" "unat b \<le> 75"
    | (p1) "b = 0x4C" | (p2) "b = 0x4D" | (p4) "b = 0x4E"
    | (o) "b \<noteq> 0" "\<not> unat b \<le> 75" "b \<noteq> 0x4C" "b \<noteq> 0x4D" "b \<noteq> 0x4E"
    by blast
  then show ?thesis
  proof cases
    case z
    with assms show ?thesis by (auto simp: parse_operation_def save_push_def)
  next
    case r
    with assms have "read_push raw_data (unat b) bs = Some (oper, [])"
      by (simp add: parse_operation_def)
    from read_push_all [OF this] r save_push_length(2) [of "data oper"] show ?thesis by simp
  next
    case p1
    with assms have "read_sized_push pushdata1 1 bs = Some (oper, [])"
      by (simp add: parse_operation_def)
    from read_sized_push_all [OF this] save_push_length(3) [of "data oper"]
    show ?thesis by simp
  next
    case p2
    with assms have "read_sized_push pushdata2 2 bs = Some (oper, [])"
      by (simp add: parse_operation_def)
    from read_sized_push_all [OF this] save_push_length(4) [of "data oper"]
    show ?thesis by simp
  next
    case p4
    with assms have "read_sized_push pushdata4 4 bs = Some (oper, [])"
      by (simp add: parse_operation_def)
    from read_sized_push_all [OF this] save_push_length(1) [of "data oper"]
    show ?thesis by simp
  next
    case o
    with assms(1) have "code oper = byte_to_opcode b"
      by (auto simp: parse_operation_def)
    with assms(2) byte_to_opcode_no_push show ?thesis by simp
  qed
qed

text \<open>
  C2. Parsing the bytes that \<open>save_script\<close> writes for a well-formed script gives the
  script back. A script is well-formed when nothing is on its evaluation stack, each
  push carries the tag of the smallest encoding of its payload (the tag the parser
  gives that encoding), and each other operation is not the sentinel \<open>special\<close> and has
  no payload. The encoding \<open>save_script\<close> chooses for a push is the smallest: no bytes
  that parse to exactly one push of the same payload are fewer.
\<close>

theorem parse_save_script:
  "(well_formed scr \<longrightarrow> parse_script (save_script scr) = Some scr)
   \<and> (\<forall>b bs oper. parse_operation b bs = Some (oper, []) \<longrightarrow> is_push (code oper) \<longrightarrow>
         length (save_push (data oper)) \<le> length (b # bs))"
proof (intro conjI impI allI)
  assume "well_formed scr"
  then have "list_all well_formed_operation (m_operations scr)" "m_stack scr = []"
    by (simp_all add: well_formed_def)
  from parse_save_operations [OF this(1)] this(2)
  show "parse_script (save_script scr) = Some scr"
    by (simp add: parse_script_def save_script_def)
next
  fix b bs oper
  assume "parse_operation b bs = Some (oper, [])" "is_push (code oper)"
  then show "length (save_push (data oper)) \<le> length (b # bs)"
    by (rule save_push_smallest)
qed

theorem parse_save_script_witness:
  "well_formed example_script
   \<and> parse_script (save_script example_script) = Some example_script
   \<and> parse_operation 0x4C [1, 7] = Some (\<lparr>code = pushdata1, data = [7]\<rparr>, [])
   \<and> length (save_push [7]) \<le> length [0x4C, 1, 7 :: byte]"
proof -
  have wf: "well_formed example_script"
    by (simp add: well_formed_def example_script_def well_formed_operation_def
        smallest_push_def)
  have p: "parse_operation 0x4C [1, 7] = Some (\<lparr>code = pushdata1, data = [7]\<rparr>, [])"
    by (simp add: parse_operation_def read_sized_push_def read_push_def)
  from parse_save_script [of example_script] wf p show ?thesis
    by (simp add: save_push_def)
qed

lemma non_minimal_push_retagged:
  "parse_script (save_script \<lparr>m_operations = [\<lparr>code = pushdata1, data = [7]\<rparr>], m_stack = []\<rparr>)
   = Some \<lparr>m_operations = [\<lparr>code = raw_data, data = [7]\<rparr>], m_stack = []\<rparr>"
  by (simp add: parse_script_def save_script_def save_operation_def save_push_def
      parse_operation_def read_push_def)

text \<open>
  C1. For every transaction, input index \<open>i\<close>, script code and 32-bit hash type
  whose low five bits are 3 (\<open>single\<close>): if \<open>i\<close> is at least the number of outputs,
  the signature hash is the 32 bytes that are zero but for the last, which is 1.
\<close>

theorem single_out_of_range_hash:
  assumes "hash_type AND 0x1F = 3" and "length (outputs parent_tx) \<le> unat input_index"
  shows "generate_signature_hash serialize sha256_hash parent_tx input_index script_code
           hash_type = replicate 31 0 @ [1]"
  using assms
  by (simp add: generate_signature_hash_def Let_def sighash_single_def one_hash_def)

theorem single_out_of_range_hash_witness:
  "(0x83 :: 32 word) AND 0x1F = 3
   \<and> length (outputs example_transaction) \<le> unat (1 :: 32 word)
   \<and> generate_signature_hash (\<lambda>tx. []) (\<lambda>bytes. bytes) example_transaction 1 example_script
        0x83 =
      [0, 0, 0, 0, 0, 0, 0, 0, 0, 0, 0, 0, 0, 0, 0, 0,
       0, 0, 0, 0, 0, 0, 0, 0, 0, 0, 0, 0, 0, 0, 0, 1]"
proof -
  have a: "(0x83 :: 32 word) AND 0x1F = 3" by simp
  have b: "length (outputs example_transaction) \<le> unat (1 :: 32 word)"
    by (simp add: example_transaction_def)
  from single_out_of_range_hash [OF a b, of "\<lambda>tx. []" "\<lambda>bytes. bytes" example_script] a b
  show ?thesis by (simp add: numeral_eq_Suc)
qed

end
